theory Spec2Isabelle
  imports Complex_Main "HOL-Library.Sublist"
begin

section \<open>JavaScript values used by the service\<close>

text \<open>
  Fields that the service itself writes and reads back as strings (keys, ids,
  messages) are \<open>string option\<close>: \<open>None\<close> is an absent (undefined or null) field.
  JavaScript treats an absent field and the empty string alike in a condition, which
  \<open>truthy\<close> renders.
\<close>

definition truthy :: "string option \<Rightarrow> bool" where
  "truthy v = (case v of None \<Rightarrow> False | Some s \<Rightarrow> s \<noteq> [])"

definition str_of :: "string option \<Rightarrow> string" where
  "str_of v = (case v of None \<Rightarrow> [] | Some s \<Rightarrow> s)"

text \<open>\<open>a || b\<close> on optional strings.\<close>

definition or_else :: "string option \<Rightarrow> string option \<Rightarrow> string option" where
  "or_else a b = (if truthy a then a else b)"

text \<open>\<open>String.prototype.includes\<close>: the argument occurs as a contiguous run.\<close>

definition str_includes :: "string \<Rightarrow> string \<Rightarrow> bool" where
  "str_includes s sub = sublist sub s"

text \<open>
  A thrown JavaScript error, as far as the service looks at it: its \<open>message\<close> and
  what \<open>String(e)\<close> gives. Handlers report \<open>e.message || String(e)\<close>.
\<close>

datatype js_error = JsError (message: "string option") (as_string: string)

definition error_text :: "js_error \<Rightarrow> string" where
  "error_text e = (if truthy (message e) then str_of (message e) else as_string e)"

definition type_error :: "string \<Rightarrow> js_error" where
  "type_error msg = JsError (Some msg) (''TypeError: '' @ msg)"

subsection \<open>JSON values\<close>

text \<open>
  The content of a post and the defaults of a tenant come out of \<open>JSON.parse\<close> and
  are never checked, so each of their fields holds any JSON value, or nothing: a
  field is a \<open>json option\<close>, \<open>None\<close> being \<open>undefined\<close>. A number is given by its
  canonical rendering (\<open>Number.prototype.toString\<close>), which identifies the parsed
  double up to the sign of zero; \<open>''0''\<close> is zero.
\<close>

datatype json =
    JNull
  | JBool bool
  | JNum string
  | JStr string
  | JArr "json list"
  | JObj "(string \<times> json) list"

text \<open>Truthiness: what \<open>!v\<close> and \<open>v && ...\<close> look at.\<close>

fun js_truthy :: "json option \<Rightarrow> bool" where
  "js_truthy None = False"
| "js_truthy (Some JNull) = False"
| "js_truthy (Some (JBool b)) = b"
| "js_truthy (Some (JNum n)) = (n \<noteq> ''0'')"
| "js_truthy (Some (JStr s)) = (s \<noteq> [])"
| "js_truthy (Some (JArr xs)) = True"
| "js_truthy (Some (JObj kvs)) = True"

text \<open>
  \<open>ToString\<close>, as template literals, \<open>+=\<close> on a string, \<open>String.prototype.includes\<close>
  and \<open>RegExp.prototype.test\<close> apply it. An array is joined with commas, \<open>null\<close>
  elements giving the empty string; an object gives \<open>[object Object]\<close>, unless it
  has an own key \<open>toString\<close>, which (never being a function in parsed JSON) makes
  the conversion throw a TypeError.
\<close>

fun stringable :: "json \<Rightarrow> bool" where
  "stringable (JObj kvs) = (''toString'' \<notin> set (map fst kvs))"
| "stringable (JArr xs) = list_all stringable xs"
| "stringable j = True"

fun render :: "json \<Rightarrow> string" and render_list :: "json list \<Rightarrow> string" where
  "render JNull = ''null''"
| "render (JBool b) = (if b then ''true'' else ''false'')"
| "render (JNum n) = n"
| "render (JStr s) = s"
| "render (JArr xs) = render_list xs"
| "render (JObj kvs) = ''[object Object]''"
| "render_list [] = []"
| "render_list (x # xs) =
     (if x = JNull then [] else render x) @ (if xs = [] then [] else '','' @ render_list xs)"

definition to_string :: "json \<Rightarrow> js_error + string" where
  "to_string j = (if stringable j then Inr (render j)
                  else Inl (type_error ''Cannot convert object to primitive value''))"

text \<open>
  \<open>b.includes(x)\<close> for a truthy \<open>b\<close>: \<open>String.prototype.includes\<close> on a string
  (the argument converted to a string), \<open>Array.prototype.includes\<close> on an array
  (an element equal to \<open>x\<close>, where an array or object \<open>x\<close> parsed from another
  document is identical to no element), and a TypeError on a number, a boolean or an
  object, which have no callable \<open>includes\<close>.
\<close>

fun primitive :: "json \<Rightarrow> bool" where
  "primitive (JArr xs) = False"
| "primitive (JObj kvs) = False"
| "primitive j = True"

definition js_includes :: "json \<Rightarrow> json \<Rightarrow> js_error + bool" where
  "js_includes b x =
     (case b of
        JStr s \<Rightarrow> (case to_string x of Inl err \<Rightarrow> Inl err | Inr t \<Rightarrow> Inr (str_includes s t))
      | JArr ys \<Rightarrow> Inr (primitive x \<and> x \<in> set ys)
      | _ \<Rightarrow> Inl (type_error ''out.body.includes is not a function''))"

text \<open>
  \<open>b += `\n\n${i}`\<close> for a string or array \<open>b\<close>: both sides converted to strings
  and concatenated.
\<close>

definition concat_invite :: "json \<Rightarrow> json \<Rightarrow> js_error + json" where
  "concat_invite b i =
     (if stringable i \<and> stringable b
      then Inr (JStr (render b @ [CHR 0x0A, CHR 0x0A] @ render i))
      else Inl (type_error ''Cannot convert object to primitive value''))"

section \<open>Post content and tenant defaults\<close>

text \<open>
  A field the object does not have is \<open>None\<close>. A truthy value that is not an
  object has none of the fields, and so reads as the record with every field
  \<open>None\<close>; a falsy one is replaced before it is looked at (\<open>entry.post || {...}\<close>,
  \<open>cfg.defaults || {}\<close>).
\<close>

record post =
  ptype :: "json option"
  title :: "json option"
  body :: "json option"
  url :: "json option"
  flair_id :: "json option"
  flair_text :: "json option"

record defaults =
  d_title :: "json option"
  d_invite :: "json option"
  d_body :: "json option"

text \<open>\<open>defaultServerConfig(serverKey).defaults\<close>, and the \<open>{}\<close> of \<open>cfg.defaults || {}\<close>.\<close>

definition default_defaults :: defaults where
  "default_defaults =
     \<lparr>d_title = Some (JStr []), d_invite = Some (JStr []), d_body = Some (JStr [])\<rparr>"

definition no_defaults :: defaults where
  "no_defaults = \<lparr>d_title = None, d_invite = None, d_body = None\<rparr>"

text \<open>
  The body shared, statement for statement, by \<open>withServerDefaults\<close> (server) and
  \<open>mergeDefaults\<close> (configuration CLI), once the defaults \<open>d\<close> are at hand. The three
  statements of the \<open>self\<close> branch run in the source's order, each on the result of
  the one before; the second one calls \<open>out.body.includes\<close> and may throw.
\<close>

definition fill_title :: "defaults \<Rightarrow> post \<Rightarrow> post" where
  "fill_title d out =
     (if \<not> js_truthy (title out) \<and> js_truthy (d_title d) then out\<lparr>title := d_title d\<rparr>
      else out)"

definition fill_body :: "defaults \<Rightarrow> post \<Rightarrow> post" where
  "fill_body d out =
     (if \<not> js_truthy (body out) \<and> js_truthy (d_body d) then out\<lparr>body := d_body d\<rparr>
      else out)"

definition append_invite :: "defaults \<Rightarrow> post \<Rightarrow> js_error + post" where
  "append_invite d out =
     (case (d_invite d, body out) of
        (Some i, Some b) \<Rightarrow>
          if js_truthy (Some i) \<and> js_truthy (Some b) then
            (case js_includes b i of
               Inl err \<Rightarrow> Inl err
             | Inr True \<Rightarrow> Inr out
             | Inr False \<Rightarrow>
                (case concat_invite b i of
                   Inl err \<Rightarrow> Inl err
                 | Inr b' \<Rightarrow> Inr (out\<lparr>body := Some b'\<rparr>)))
          else Inr out
      | _ \<Rightarrow> Inr out)"

definition invite_as_body :: "defaults \<Rightarrow> post \<Rightarrow> post" where
  "invite_as_body d out =
     (if js_truthy (d_invite d) \<and> \<not> js_truthy (body out) then out\<lparr>body := d_invite d\<rparr>
      else out)"

definition fill_url :: "defaults \<Rightarrow> post \<Rightarrow> post" where
  "fill_url d out =
     (if \<not> js_truthy (url out) \<and> js_truthy (d_invite d) then out\<lparr>url := d_invite d\<rparr>
      else out)"

definition fill_defaults :: "defaults \<Rightarrow> post \<Rightarrow> js_error + post" where
  "fill_defaults d p =
     (let out = fill_title d p in
      if ptype out = Some (JStr ''self'') then
        (case append_invite d (fill_body d out) of
           Inl err \<Rightarrow> Inl err
         | Inr out' \<Rightarrow> Inr (invite_as_body d out'))
      else if ptype out = Some (JStr ''link'') then Inr (fill_url d out)
      else Inr out)"

text \<open>
  \<open>withServerDefaults(serverKey, post)\<close>: the configuration read from disk always has
  a \<open>defaults\<close> key after \<open>readServerConfig\<close> merged the default configuration in, but
  its value may be null, hence \<open>cfg.defaults || {}\<close>.
\<close>

definition withServerDefaults :: "defaults option \<Rightarrow> post \<Rightarrow> js_error + post" where
  "withServerDefaults cfg_defaults p =
     fill_defaults (case cfg_defaults of None \<Rightarrow> no_defaults | Some d \<Rightarrow> d) p"



section \<open>Errors, the clock and the outside world\<close>

text \<open>
  What \<open>submitPost\<close> sends, and the \<open>json.data\<close> object it returns on success,
  whose \<open>id\<close>, \<open>name\<close> and \<open>url\<close> are strings when present.
\<close>

record submit_req =
  sr :: string
  kind :: string
  q_title :: "json option"
  q_text :: "json option"
  q_url :: "json option"
  q_flair_id :: "json option"
  q_flair_text :: "json option"

record submit_data =
  j_id :: "string option"
  j_name :: "string option"
  j_url :: "string option"

text \<open>The answer of \<open>resolveRecentSubmission\<close>: \<open>{ id, permalink }\<close>.\<close>

record resolved =
  v_id :: "string option"
  v_permalink :: "string option"

text \<open>The listing data of a submission, of which only the removal category is read.\<close>

record thing =
  removed_by_category :: "json option"

text \<open>A \<open>fetch\<close> response as the schedule runner reads it: \<open>ok\<close> and \<open>status\<close>.\<close>

record fetch_response =
  ok :: bool
  status :: "nat option"

text \<open>Outcomes pushed to \<open>results\<close>, one constructor per \<open>status\<close> string.\<close>

datatype outcome =
    Skip_cooldown string int
  | Invalid string "string list"
  | Dry_run_ok string "json option" "json option" "json option" "json option"
  | Posted string "string option" "string option"
  | Error string string

fun status_of :: "outcome \<Rightarrow> string" where
  "status_of (Skip_cooldown sub h) = ''skip_cooldown''"
| "status_of (Invalid sub errs) = ''invalid''"
| "status_of (Dry_run_ok sub ty ti u b) = ''dry_run_ok''"
| "status_of (Posted sub i pl) = ''posted''"
| "status_of (Error sub m) = ''error''"


text \<open>The two events sent to the notification collaborator, with their payloads.\<close>

datatype notification =
    Session_completed string bool "(string \<times> nat) list" "outcome list"
  | Post_removed string string "string option" string

text \<open>
  Every call that leaves the process, in the order made. \<open>Call_notifySquire\<close>
  is logged only when a notification URL is configured, as \<open>notifySquire\<close> returns
  before any request otherwise.
\<close>

datatype call =
    Call_getToken
  | Call_submitPost "string option" submit_req
  | Call_resolveRecentSubmission string "json option"
  | Call_fetchSubmissionInfo string
  | Call_fetch_advertise "string option"
  | Call_notifySquire notification
  | Call_sleep nat

text \<open>
  The outside world answers by position: \<open>ticks\<close> counts the consultations made so
  far (clock readings and calls), and each oracle is asked at the current count, so
  that no two consultations are forced to agree. \<open>clock\<close> is \<open>Date.now()\<close> in
  milliseconds; \<open>fresh_id\<close> stands for the time-and-random identifier of
  \<open>addSchedule\<close>; \<open>squire_url\<close> says whether \<open>SQUIRE_NOTIFY_URL\<close> is set.
\<close>

record env =
  clock :: "nat \<Rightarrow> int"
  getToken :: "nat \<Rightarrow> js_error + string option"
  submitPost :: "nat \<Rightarrow> string option \<Rightarrow> submit_req \<Rightarrow> js_error + submit_data"
  resolveRecentSubmission :: "nat \<Rightarrow> string \<Rightarrow> json option \<Rightarrow> js_error + resolved option"
  fetchSubmissionInfo :: "nat \<Rightarrow> string \<Rightarrow> js_error + thing option"
  fresh_id :: "nat \<Rightarrow> string"
  squire_url :: bool

record io =
  ticks :: nat
  calls :: "call list"

definition tick :: "'a io_scheme \<Rightarrow> 'a io_scheme" where
  "tick w = w\<lparr>ticks := Suc (ticks w)\<rparr>"

definition call_out :: "call \<Rightarrow> 'a io_scheme \<Rightarrow> 'a io_scheme" where
  "call_out c w = w\<lparr>ticks := Suc (ticks w), calls := calls w @ [c]\<rparr>"

text \<open>\<open>sleep(ms)\<close> only lets time pass.\<close>

definition sleep :: "nat \<Rightarrow> 'a io_scheme \<Rightarrow> 'a io_scheme" where
  "sleep ms w = w\<lparr>calls := calls w @ [Call_sleep ms]\<rparr>"

section \<open>The durable store\<close>

text \<open>
  What the service itself writes has the shape it was written with: posted records,
  cooldown values, \<open>lastAdAt\<close> and schedules. A target is an object whose
  \<open>subreddit\<close> is a string, whose \<open>key\<close> is a string or absent, and whose \<open>rules\<close>
  and \<open>post\<close> are objects or absent; the fields of the post, like those of the
  tenant's defaults, hold any JSON value. A request names its tenant by a string, or
  not at all.
\<close>

record rules =
  cooldownDays :: "int option"
  requirePermanentInvite :: "bool option"

record entry =
  t_key :: "string option"
  t_subreddit :: string
  t_rules :: "rules option"
  t_post :: "post option"

record removal =
  category :: string
  checkedUtc :: int

record posted_record =
  r_id :: "string option"
  r_subreddit :: string
  r_serverKey :: string
  r_createdUtc :: int
  r_status :: string
  r_removal :: "removal option"

record schedule =
  s_id :: string
  s_serverKey :: "string option"
  s_whenMs :: int
  s_reason :: "string option"
  s_createdMs :: "int option"
  s_attemptCount :: "int option"
  s_lastAttemptMs :: "int option"
  s_lastError :: "string option"

text \<open>
  One tenant directory: \<open>server.json\<close> (\<open>lastAdAt\<close>, \<open>defaults\<close>),
  \<open>subreddits.json\<close>, \<open>cooldowns.json\<close> and \<open>posted.json\<close>. A file missing from
  an existing directory reads as its \<open>readJSON\<close> fallback, which is what the field
  then holds. \<open>r_createdUtc\<close> and the cooldown values are numbers, \<open>0\<close> being the
  one falsy number.
\<close>

record tenant =
  lastAdAt :: int
  cfg_defaults :: "defaults option"
  subs :: "entry list"
  cooldowns :: "string \<rightharpoonup> int"
  posted :: "posted_record list"

text \<open>
  The data directory: the keys \<open>listServers\<close> returns for \<open>servers.json\<close>, the
  tenant directories by key (\<open>None\<close> where there is no directory), and
  \<open>schedules.json\<close>.
\<close>

record world = io +
  server_keys :: "string list"
  tenants :: "string \<rightharpoonup> tenant"
  schedules :: "schedule list"

subsection \<open>Schedules (store.js)\<close>

text \<open>
  \<open>addSchedule(dataDir, { serverKey, whenMs, reason })\<close>: the identifier is built
  from one clock reading and random bytes, \<open>createdMs\<close> is a second reading.
\<close>

definition addSchedule :: "env \<Rightarrow> string option \<Rightarrow> int \<Rightarrow> string \<Rightarrow> world \<Rightarrow> schedule \<times> world" where
  "addSchedule env serverKey whenMs reason w =
     (let new_id = fresh_id env (ticks w);
          w1 = tick w;
          created = clock env (ticks w1);
          w2 = tick w1;
          e = \<lparr>s_id = new_id, s_serverKey = serverKey, s_whenMs = whenMs,
               s_reason = Some reason, s_createdMs = Some created,
               s_attemptCount = None, s_lastAttemptMs = None, s_lastError = None\<rparr>
      in (e, w2\<lparr>schedules := schedules w2 @ [e]\<rparr>))"

text \<open>\<open>removeSchedule(dataDir, id)\<close> keeps the entries with another id.\<close>

definition removeSchedule :: "string \<Rightarrow> world \<Rightarrow> world" where
  "removeSchedule i w = w\<lparr>schedules := filter (\<lambda>s. s_id s \<noteq> i) (schedules w)\<rparr>"

text \<open>
  \<open>updateSchedule(dataDir, id, updates)\<close> with the four keys the runner passes:
  the first entry with the id is overwritten in place; \<open>None\<close> (the source's
  \<open>null\<close>) when there is none.
\<close>

fun update_first :: "string \<Rightarrow> (schedule \<Rightarrow> schedule) \<Rightarrow> schedule list \<Rightarrow> (schedule \<times> schedule list) option" where
  "update_first i f [] = None"
| "update_first i f (s # ss) =
     (if s_id s = i then Some (f s, f s # ss)
      else (case update_first i f ss of
              None \<Rightarrow> None
            | Some (n, ss') \<Rightarrow> Some (n, s # ss')))"

definition updateSchedule :: "string \<Rightarrow> int \<Rightarrow> int \<Rightarrow> int \<Rightarrow> string \<Rightarrow> world \<Rightarrow> schedule option \<times> world" where
  "updateSchedule i whenMs attemptCount lastAttemptMs lastError w =
     (case update_first i
             (\<lambda>s. s\<lparr>s_whenMs := whenMs, s_attemptCount := Some attemptCount,
                     s_lastAttemptMs := Some lastAttemptMs, s_lastError := Some lastError\<rparr>)
             (schedules w) of
        None \<Rightarrow> (None, w)
      | Some (n, ss') \<Rightarrow> (Some n, w\<lparr>schedules := ss'\<rparr>))"

section \<open>The advertise session (server, POST /v1/advertise)\<close>

definition SERVER_ROLLING_WINDOW_MS :: int where
  "SERVER_ROLLING_WINDOW_MS = 24 * 3600 * 1000"

text \<open>
  The loop's variables: the in-memory \<open>cooldowns\<close> object (written back whole after
  each change, so it is also the file), the tenant's \<open>posted.json\<close>, \<open>results\<close> and
  \<open>postedCount\<close>; and \<open>thrown\<close>, the error that left the loop body outside its
  \<open>try\<close> block, if one did: the handler is an \<open>async\<close> function without a
  \<open>catch\<close> of its own, so such an error ends the loop and rejects the handler's
  promise, while what was written to the files before stays written.
\<close>

record session = io +
  ss_cooldowns :: "string \<rightharpoonup> int"
  ss_posted :: "posted_record list"
  results :: "outcome list"
  postedCount :: nat
  thrown :: "js_error option"

definition push :: "outcome \<Rightarrow> session \<Rightarrow> session" where
  "push detail s = s\<lparr>results := results s @ [detail]\<rparr>"

text \<open>\<open>entry.key || subreddit\<close>, \<open>entry.rules || {}\<close>, \<open>entry.post || {...}\<close>.\<close>

definition target_key :: "entry \<Rightarrow> string" where
  "target_key e = (if truthy (t_key e) then str_of (t_key e) else t_subreddit e)"

definition rules_of :: "entry \<Rightarrow> rules" where
  "rules_of e = (case t_rules e of
                   None \<Rightarrow> \<lparr>cooldownDays = None, requirePermanentInvite = None\<rparr>
                 | Some r \<Rightarrow> r)"

definition post_of :: "entry \<Rightarrow> post" where
  "post_of e = (case t_post e of
                  None \<Rightarrow> \<lparr>ptype = Some (JStr ''self''), title = Some (JStr []),
                            body = Some (JStr []), url = None,
                            flair_id = None, flair_text = None\<rparr>
                | Some p \<Rightarrow> p)"

subsection \<open>Cooldown gate\<close>

text \<open>
  \<open>cooldownDays\<close> is \<open>Some d\<close> for a finite number and \<open>None\<close> for anything else
  (absent, null, a string: \<open>Number.isFinite\<close> fails). Day counts, clock readings
  and recorded times are integers here, on which the source's arithmetic is exact; a
  fractional day count would bring in the rounding of floating point products.
\<close>

definition cadence_ms :: "rules \<Rightarrow> int" where
  "cadence_ms r = (case cooldownDays r of Some d \<Rightarrow> d | None \<Rightarrow> 1) * 24 * 3600000"

definition last_success :: "(string \<rightharpoonup> int) \<Rightarrow> string \<Rightarrow> int" where
  "last_success cd k = (case cd k of Some v \<Rightarrow> v | None \<Rightarrow> 0)"

definition waitMs :: "rules \<Rightarrow> int \<Rightarrow> int \<Rightarrow> int" where
  "waitMs r now last_ms = cadence_ms r - (now - last_ms)"

text \<open>\<open>Math.ceil(waitMs / 3600000)\<close>.\<close>

definition inHours :: "int \<Rightarrow> int" where
  "inHours w = \<lceil>real_of_int w / 3600000\<rceil>"

subsection \<open>Validation\<close>

definition to_lower :: "char \<Rightarrow> char" where
  "to_lower c = (if 65 \<le> (of_char c :: nat) \<and> (of_char c :: nat) \<le> 90
                 then char_of ((of_char c :: nat) + 32) else c)"

text \<open>
  The test \<open>/(discord\.gg|discord\.com\/invite)\//i\<close> on a string. Without the \<open>u\<close>
  flag no character beyond ASCII is case-equivalent to an ASCII letter, so lowering
  the letters A to Z is all the \<open>i\<close> flag does here.
\<close>

definition has_invite :: "string \<Rightarrow> bool" where
  "has_invite s = (str_includes (map to_lower s) ''discord.gg/''
                   \<or> str_includes (map to_lower s) ''discord.com/invite/'')"

text \<open>\<open>regex.test(v)\<close> first converts \<open>v\<close> to a string, which may throw.\<close>

definition test_invite :: "json option \<Rightarrow> js_error + bool" where
  "test_invite v =
     (case v of
        None \<Rightarrow> Inr (has_invite ''undefined'')
      | Some j \<Rightarrow> (case to_string j of Inl err \<Rightarrow> Inl err | Inr t \<Rightarrow> Inr (has_invite t)))"

text \<open>
  The validations, in the source's order; \<open>Inl\<close> when a conversion throws, \<open>Inr\<close>
  the list \<open>errors\<close> otherwise. \<open>requirePermanentInvite\<close> is \<open>Some b\<close> for a
  boolean and \<open>None\<close> for anything else; only \<open>false\<close> switches the requirement
  off.
\<close>

definition validate :: "rules \<Rightarrow> post \<Rightarrow> js_error + string list" where
  "validate r p =
     (let inviteRequired = (requirePermanentInvite r \<noteq> Some False);
          no_title = (if \<not> js_truthy (title p) then [''title is required''] else [])
      in if ptype p = Some (JStr ''self'') then
           (if \<not> js_truthy (body p) then Inr (no_title @ [''body is required for self posts''])
            else if inviteRequired then
              (case test_invite (body p) of
                 Inl err \<Rightarrow> Inl err
               | Inr found \<Rightarrow>
                   Inr (no_title @
                        (if found then [] else [''permanent invite link required in body''])))
            else Inr no_title)
         else if ptype p = Some (JStr ''link'') then
           (if \<not> js_truthy (url p) then Inr (no_title @ [''url is required for link posts''])
            else if inviteRequired then
              (case test_invite (url p) of
                 Inl err \<Rightarrow> Inl err
               | Inr found \<Rightarrow>
                   Inr (no_title @
                        (if found then [] else [''permanent invite link required as link URL''])))
            else Inr no_title)
         else Inr (no_title @ [''unsupported post type'']))"

subsection \<open>Publishing one target\<close>

definition or_null :: "string option \<Rightarrow> string option" where
  "or_null v = (if truthy v then v else None)"

text \<open>\<open>name.replace(/^t3_/, '')\<close>.\<close>

definition strip_t3 :: "string \<Rightarrow> string" where
  "strip_t3 s = (if prefix ''t3_'' s then drop 3 s else s)"

text \<open>The \<open>catch\<close> block of the loop body.\<close>

definition catch_error :: "string \<Rightarrow> js_error \<Rightarrow> session \<Rightarrow> session" where
  "catch_error subreddit e s = sleep 1000 (push (Error subreddit (error_text e)) s)"

text \<open>The record handed to \<open>appendPostedRecord\<close>, \<open>now\<close> being \<open>Date.now()\<close>.\<close>

definition live_record :: "string \<Rightarrow> string \<Rightarrow> string option \<Rightarrow> int \<Rightarrow> posted_record" where
  "live_record serverKey subreddit pid now =
     \<lparr>r_id = pid, r_subreddit = subreddit, r_serverKey = serverKey,
      r_createdUtc = now div 1000, r_status = ''live'', r_removal = None\<rparr>"

text \<open>
  The end of the \<open>try\<close> block, once \<open>id\<close> and \<open>permalink\<close> are settled:
  \<open>appendPostedRecord\<close> under \<open>if (id)\<close>, then the \<open>posted\<close> outcome and the counter.
\<close>

definition record_posted :: "env \<Rightarrow> string \<Rightarrow> string \<Rightarrow> string option \<Rightarrow> string option \<Rightarrow> session \<Rightarrow> session" where
  "record_posted env serverKey subreddit pid permalink s =
     (let s1 = (if truthy pid then
                  (let now = clock env (ticks s); s' = tick s in
                   s'\<lparr>ss_posted := ss_posted s' @ [live_record serverKey subreddit pid now]\<rparr>)
                else s);
          s2 = push (Posted subreddit pid permalink) s1
      in s2\<lparr>postedCount := postedCount s2 + 1\<rparr>)"

definition submit_request :: "entry \<Rightarrow> post \<Rightarrow> submit_req" where
  "submit_request e p =
     \<lparr>sr = t_subreddit e,
      kind = (if ptype p = Some (JStr ''link'') then ''link'' else ''self''),
      q_title = title p,
      q_text = (if ptype p = Some (JStr ''self'') then body p else None),
      q_url = (if ptype p = Some (JStr ''link'') then url p else None),
      q_flair_id = flair_id p,
      q_flair_text = flair_text p\<rparr>"

text \<open>
  The \<open>try\<close> block: \<open>submitPost\<close>, the cooldown write, the resolution of id and
  permalink, the posted record. Either call may throw, and each throw lands in
  \<open>catch_error\<close>. \<open>rateLimitPause\<close> swallows its own errors and only waits.
\<close>

definition publish :: "env \<Rightarrow> string \<Rightarrow> string option \<Rightarrow> entry \<Rightarrow> post \<Rightarrow> session \<Rightarrow> session" where
  "publish env serverKey token e p s =
     (let subreddit = t_subreddit e;
          req = submit_request e p;
          s1 = call_out (Call_submitPost token req) s
      in case submitPost env (ticks s) token req of
           Inl err \<Rightarrow> catch_error subreddit err s1
         | Inr d \<Rightarrow>
            (let now = clock env (ticks s1);
                 s2 = (tick s1)\<lparr>ss_cooldowns := (ss_cooldowns s1)(target_key e \<mapsto> now)\<rparr>;
                 id0 = or_null (or_else (j_id d) (map_option strip_t3 (j_name d)));
                 permalink0 = or_null (j_url d)
             in if \<not> truthy id0 \<or> \<not> truthy permalink0 then
                  (let s3 = call_out (Call_resolveRecentSubmission subreddit (title p)) s2
                   in case resolveRecentSubmission env (ticks s2) subreddit (title p) of
                        Inl err \<Rightarrow> catch_error subreddit err s3
                      | Inr None \<Rightarrow> record_posted env serverKey subreddit id0 permalink0 s3
                      | Inr (Some r) \<Rightarrow>
                          record_posted env serverKey subreddit
                            (or_else (v_id r) id0) (or_else (v_permalink r) permalink0) s3)
                else record_posted env serverKey subreddit id0 permalink0 s2))"

text \<open>
  The body of \<open>for (const entry of subs)\<close>. The merge of the defaults and the
  validation run outside the \<open>try\<close> block; what they throw ends the loop.
\<close>

definition advertise_target :: "env \<Rightarrow> string \<Rightarrow> bool \<Rightarrow> string option \<Rightarrow> defaults option \<Rightarrow> entry \<Rightarrow> session \<Rightarrow> session" where
  "advertise_target env serverKey dryRun token cfg e s =
     (let subreddit = t_subreddit e;
          r = rules_of e
      in case withServerDefaults cfg (post_of e) of
           Inl err \<Rightarrow> s\<lparr>thrown := Some err\<rparr>
         | Inr p \<Rightarrow>
            (let now = clock env (ticks s);
                 s1 = tick s;
                 w = waitMs r now (last_success (ss_cooldowns s1) (target_key e))
             in if w > 0 then push (Skip_cooldown subreddit (inHours w)) s1
                else
                  (case validate r p of
                     Inl err \<Rightarrow> s1\<lparr>thrown := Some err\<rparr>
                   | Inr errors \<Rightarrow>
                      if errors \<noteq> [] then push (Invalid subreddit errors) s1
                      else if dryRun then
                        push (Dry_run_ok subreddit (ptype p) (title p) (url p) (body p)) s1
                      else publish env serverKey token e p s1)))"

text \<open>
  Names for what one iteration looks at, for a target \<open>e\<close> reached in state \<open>s\<close>:
  the merged content (where the merge returns), the remaining wait (the clock is
  the iteration's first consultation), the violated rules (where the validation
  returns), what the iteration throws outside its \<open>try\<close> block, whether the
  cooldown gate and the validation let the target through, and what the platform
  answers to the publish call (the iteration's second consultation).
\<close>

definition merged_post :: "defaults option \<Rightarrow> entry \<Rightarrow> post" where
  "merged_post cfg e =
     (case withServerDefaults cfg (post_of e) of Inr p \<Rightarrow> p | Inl err \<Rightarrow> post_of e)"

definition wait_at :: "env \<Rightarrow> entry \<Rightarrow> session \<Rightarrow> int" where
  "wait_at env e s =
     waitMs (rules_of e) (clock env (ticks s)) (last_success (ss_cooldowns s) (target_key e))"

definition violations :: "defaults option \<Rightarrow> entry \<Rightarrow> string list" where
  "violations cfg e =
     (case validate (rules_of e) (merged_post cfg e) of Inr errors \<Rightarrow> errors | Inl err \<Rightarrow> [])"

definition target_throws :: "env \<Rightarrow> defaults option \<Rightarrow> entry \<Rightarrow> session \<Rightarrow> js_error option" where
  "target_throws env cfg e s =
     (case withServerDefaults cfg (post_of e) of
        Inl err \<Rightarrow> Some err
      | Inr p \<Rightarrow>
          if wait_at env e s > 0 then None
          else (case validate (rules_of e) p of Inl err \<Rightarrow> Some err | Inr errors \<Rightarrow> None))"


definition gates_passed :: "env \<Rightarrow> defaults option \<Rightarrow> entry \<Rightarrow> session \<Rightarrow> bool" where
  "gates_passed env cfg e s =
     (target_throws env cfg e s = None \<and> \<not> wait_at env e s > 0 \<and> violations cfg e = [])"


subsection \<open>The handler\<close>

datatype response =
    Bad_request string
  | Not_found string
  | Throttled int "schedule option"
  | Ok_results "outcome list"
  | Rejected js_error

text \<open>The throttle test \<open>lastAdAt && (nowMs - lastAdAt) < SERVER_ROLLING_WINDOW_MS\<close>.\<close>

definition throttled :: "int \<Rightarrow> int \<Rightarrow> bool" where
  "throttled lastAd nowMs = (lastAd \<noteq> 0 \<and> nowMs - lastAd < SERVER_ROLLING_WINDOW_MS)"

text \<open>\<open>Number(readServerConfig(...).lastAdAt || 0)\<close>: \<open>0\<close> for an unknown tenant.\<close>

definition stored_lastAdAt :: "world \<Rightarrow> string \<Rightarrow> int" where
  "stored_lastAdAt w k = (case tenants w k of None \<Rightarrow> 0 | Some t \<Rightarrow> lastAdAt t)"

text \<open>\<open>dryRun ? null : await getToken()\<close>.\<close>

definition acquire_token :: "env \<Rightarrow> bool \<Rightarrow> world \<Rightarrow> (js_error + string option) \<times> world" where
  "acquire_token env dryRun w =
     (if dryRun then (Inr None, w) else (getToken env (ticks w), call_out Call_getToken w))"

definition notifySquire :: "env \<Rightarrow> notification \<Rightarrow> 'a io_scheme \<Rightarrow> 'a io_scheme" where
  "notifySquire env n w = (if squire_url env then call_out (Call_notifySquire n) w else w)"

text \<open>The \<open>reduce\<close> over \<open>results\<close>: one count per status, in order of first occurrence.\<close>

definition counts_of :: "outcome list \<Rightarrow> (string \<times> nat) list" where
  "counts_of rs =
     map (\<lambda>k. (k, length (filter (\<lambda>r. status_of r = k) rs)))
         (rev (remdups (rev (map status_of rs))))"

text \<open>
  The loop starts from \<open>subs\<close>, \<open>cooldowns\<close> and \<open>posted.json\<close> as read from the
  tenant's directory, \<open>results = []\<close> and \<open>postedCount = 0\<close>.
\<close>

definition session_start :: "tenant \<Rightarrow> world \<Rightarrow> session" where
  "session_start t w =
     \<lparr>ticks = ticks w, calls = calls w, ss_cooldowns = cooldowns t, ss_posted = posted t,
      results = [], postedCount = 0, thrown = None\<rparr>"

text \<open>The loop: once an iteration has thrown, no later iteration runs.\<close>

definition loop_step :: "env \<Rightarrow> string \<Rightarrow> bool \<Rightarrow> string option \<Rightarrow> defaults option \<Rightarrow> session \<Rightarrow> entry \<Rightarrow> session" where
  "loop_step env serverKey dryRun token cfg s e =
     (if thrown s = None then advertise_target env serverKey dryRun token cfg e s else s)"

definition run_targets :: "env \<Rightarrow> string \<Rightarrow> bool \<Rightarrow> string option \<Rightarrow> defaults option \<Rightarrow> entry list \<Rightarrow> session \<Rightarrow> session" where
  "run_targets env serverKey dryRun token cfg es s =
     foldl (loop_step env serverKey dryRun token cfg) s es"

text \<open>
  What follows the loop: the files of the tenant as the loop left them; then, unless
  the loop has thrown (in which case the handler's promise is rejected with that
  error and nothing more happens), \<open>updateServerLastAdAt\<close> under
  \<open>!dryRun && postedCount > 0\<close>, the summary to the notification collaborator, the
  response.
\<close>

definition complete_session :: "env \<Rightarrow> string \<Rightarrow> bool \<Rightarrow> tenant \<Rightarrow> world \<Rightarrow> session \<Rightarrow> response \<times> world" where
  "complete_session env k dryRun t1 w s =
     (let advance = (\<not> dryRun \<and> postedCount s > 0);
          t2 = (if advance then t1\<lparr>lastAdAt := clock env (ticks s)\<rparr> else t1);
          s1 = (if advance then tick s else s);
          s2 = notifySquire env
                 (Session_completed k dryRun (counts_of (results s1))
                    (filter (\<lambda>r. status_of r \<noteq> ''posted'') (results s1))) s1
      in (Ok_results (results s2),
          w\<lparr>ticks := ticks s2, calls := calls s2, tenants := (tenants w)(k \<mapsto> t2)\<rparr>))"

definition finish_session :: "env \<Rightarrow> string \<Rightarrow> bool \<Rightarrow> tenant \<Rightarrow> world \<Rightarrow> session \<Rightarrow> response \<times> world" where
  "finish_session env k dryRun t w s =
     (let t1 = t\<lparr>cooldowns := ss_cooldowns s, posted := ss_posted s\<rparr>
      in case thrown s of
           Some err \<Rightarrow>
             (Rejected err,
              w\<lparr>ticks := ticks s, calls := calls s, tenants := (tenants w)(k \<mapsto> t1)\<rparr>)
         | None \<Rightarrow> complete_session env k dryRun t1 w s)"


definition advertise :: "env \<Rightarrow> string option \<Rightarrow> bool \<Rightarrow> bool \<Rightarrow> world \<Rightarrow> response \<times> world" where
  "advertise env serverKey dryRun autoScheduleIfThrottled w =
     (if \<not> truthy serverKey then (Bad_request ''serverKey required'', w)
      else
        (let k = str_of serverKey;
             lastAd = stored_lastAdAt w k;
             nowMs = clock env (ticks w);
             w1 = tick w
         in if throttled lastAd nowMs then
              (let throttleUntil = lastAd + SERVER_ROLLING_WINDOW_MS in
               if autoScheduleIfThrottled then
                 (case addSchedule env serverKey throttleUntil ''throttled'' w1 of
                    (scheduled, w2) \<Rightarrow> (Throttled throttleUntil (Some scheduled), w2))
               else (Throttled throttleUntil None, w1))
            else
              (case tenants w1 k of
                 None \<Rightarrow> (Not_found ''server not found'', w1)
               | Some t \<Rightarrow>
                  (case acquire_token env dryRun w1 of
                     (Inl err, w2) \<Rightarrow> (Rejected err, w2)
                   | (Inr token, w2) \<Rightarrow>
                      finish_session env k dryRun t w2
                        (run_targets env k dryRun token (cfg_defaults t) (subs t)
                           (session_start t w2))))))"

text \<open>The state in which the loop of a session reaches its target number \<open>i\<close>.\<close>

definition before_target :: "env \<Rightarrow> string \<Rightarrow> bool \<Rightarrow> string option \<Rightarrow> defaults option \<Rightarrow> entry list \<Rightarrow> session \<Rightarrow> nat \<Rightarrow> session" where
  "before_target env k dry tok cfg es s i = run_targets env k dry tok cfg (take i es) s"


section \<open>The removal monitor (server)\<close>

definition MONITOR_TTL_DAYS :: int where
  "MONITOR_TTL_DAYS = 7"

text \<open>
  \<open>(thing?.removed_by_category || '').toLowerCase()\<close>: the empty string for a
  falsy field, the lowered string for a string, and a \<open>TypeError\<close> for any other
  truthy value, which has no such method.
\<close>

definition lowered_category :: "thing option \<Rightarrow> js_error + string" where
  "lowered_category th =
     (case (case th of None \<Rightarrow> None | Some x \<Rightarrow> removed_by_category x) of
        None \<Rightarrow> Inr []
      | Some (JStr s) \<Rightarrow> Inr (map to_lower s)
      | Some j \<Rightarrow> if js_truthy (Some j) then Inl (type_error ''toLowerCase is not a function'')
                  else Inr [])"

text \<open>
  The category a listing reports, lowered: empty when it reports none, or one that is
  not a string (on which \<open>toLowerCase\<close> throws).
\<close>

definition category_of :: "thing \<Rightarrow> string" where
  "category_of th = (case lowered_category (Some th) of Inr cat \<Rightarrow> cat | Inl err \<Rightarrow> [])"

text \<open>\<open>classifyRemoval(thing)\<close> of reddit.js, returning \<open>(removed, category)\<close>.\<close>

definition classifyRemoval :: "thing option \<Rightarrow> js_error + bool \<times> string option" where
  "classifyRemoval th =
     (case lowered_category th of
        Inl err \<Rightarrow> Inl err
      | Inr cat \<Rightarrow>
          Inr (if cat = [] then (False, None)
               else if cat \<in> set [''moderator'', ''automod_filtered'', ''content_takedown'',
                                    ''copyright_takedown'', ''legal'']
                    then (True, Some cat)
               else if cat = ''deleted'' then (True, Some ''deleted'')
               else (True, Some cat)))"

text \<open>
  The age the monitor computes, \<open>now - (rec.createdUtc || now)\<close>, in seconds: a
  record without a creation time (or with the falsy \<open>0\<close>) has age \<open>0\<close>.
\<close>

definition age :: "int \<Rightarrow> posted_record \<Rightarrow> int" where
  "age now r = now - (if r_createdUtc r \<noteq> 0 then r_createdUtc r else now)"

text \<open>
  The body of \<open>for (const rec of list)\<close>: the record as the iteration leaves it,
  whether the iteration set \<open>changed\<close>, and the calls made. What
  \<open>fetchSubmissionInfo\<close> or \<open>classifyRemoval\<close> throws is caught and only logged.
\<close>

definition monitor_record :: "env \<Rightarrow> string \<Rightarrow> int \<Rightarrow> posted_record \<Rightarrow> 'a io_scheme \<Rightarrow> posted_record \<times> bool \<times> 'a io_scheme" where
  "monitor_record env key now r w =
     (if r_status r \<noteq> ''live'' then (r, False, w)
      else if age now r > MONITOR_TTL_DAYS * 86400
           then (r\<lparr>r_status := ''expired''\<rparr>, True, w)
      else if \<not> truthy (r_id r) then (r\<lparr>r_status := ''unknown''\<rparr>, True, w)
      else
        (let w1 = call_out (Call_fetchSubmissionInfo (str_of (r_id r))) w
         in case fetchSubmissionInfo env (ticks w) (str_of (r_id r)) of
              Inl err \<Rightarrow> (r, False, w1)
            | Inr None \<Rightarrow> (r, False, w1)
            | Inr (Some th) \<Rightarrow>
               (case classifyRemoval (Some th) of
                  Inl err \<Rightarrow> (r, False, w1)
                | Inr (removed, cat) \<Rightarrow>
                    if removed \<and> truthy cat \<and> cat \<noteq> Some ''deleted'' then
                      (r\<lparr>r_status := ''removed'',
                         r_removal := Some \<lparr>category = str_of cat, checkedUtc = now\<rparr>\<rparr>,
                       True,
                       notifySquire env
                         (Post_removed key (r_subreddit r) (r_id r) (str_of cat)) w1)
                    else (r, False, w1))))"

fun monitor_records :: "env \<Rightarrow> string \<Rightarrow> int \<Rightarrow> posted_record list \<Rightarrow> bool \<Rightarrow> 'a io_scheme \<Rightarrow> posted_record list \<times> bool \<times> 'a io_scheme" where
  "monitor_records env key now [] changed w = ([], changed, w)"
| "monitor_records env key now (r # rs) changed w =
     (case monitor_record env key now r w of
        (r', c, w1) \<Rightarrow>
          (case monitor_records env key now rs (changed \<or> c) w1 of
             (rs', ch, w2) \<Rightarrow> (r' # rs', ch, w2)))"

text \<open>\<open>listPostedRecords\<close>: the file, or \<open>[]\<close> when it cannot be read.\<close>

definition listPostedRecords :: "world \<Rightarrow> string \<Rightarrow> posted_record list" where
  "listPostedRecords w key = (case tenants w key of None \<Rightarrow> [] | Some t \<Rightarrow> posted t)"

text \<open>
  \<open>writePostedRecords\<close>: \<open>writeJSON\<close> creates the directory when it is missing,
  whose other files then read as their fallbacks.
\<close>

definition writePostedRecords :: "string \<Rightarrow> posted_record list \<Rightarrow> world \<Rightarrow> world" where
  "writePostedRecords key rs w =
     w\<lparr>tenants := (tenants w)(key \<mapsto>
         (case tenants w key of
            None \<Rightarrow> \<lparr>lastAdAt = 0, cfg_defaults = Some default_defaults, subs = [],
                      cooldowns = Map.empty, posted = rs\<rparr>
          | Some t \<Rightarrow> t\<lparr>posted := rs\<rparr>))\<rparr>"

text \<open>The body of \<open>for (const s of servers)\<close>.\<close>

definition monitor_server :: "env \<Rightarrow> world \<Rightarrow> string \<Rightarrow> world" where
  "monitor_server env w key =
     (let rs = listPostedRecords w key;
          now = clock env (ticks w) div 1000;
          w1 = tick w
      in case monitor_records env key now rs False w1 of
           (rs', changed, w2) \<Rightarrow> if changed then writePostedRecords key rs' w2 else w2)"

definition runRemovalMonitorOnce :: "env \<Rightarrow> world \<Rightarrow> world" where
  "runRemovalMonitorOnce env w = foldl (monitor_server env) w (server_keys w)"

text \<open>The state in which a tick reaches the server number \<open>j\<close> of its list.\<close>

definition before_server :: "env \<Rightarrow> world \<Rightarrow> nat \<Rightarrow> world" where
  "before_server env w j = foldl (monitor_server env) w (take j (server_keys w))"

text \<open>
  The records a tick asks the platform about: live, within the TTL, with an id.
\<close>

definition checked_remotely :: "int \<Rightarrow> posted_record \<Rightarrow> bool" where
  "checked_remotely now r =
     (r_status r = ''live'' \<and> \<not> age now r > MONITOR_TTL_DAYS * 86400 \<and> truthy (r_id r))"

fun is_fetch :: "call \<Rightarrow> bool" where
  "is_fetch (Call_fetchSubmissionInfo i) = True"
| "is_fetch c = False"

text \<open>
  The service over time, as far as posted records go: monitor ticks and advertise
  requests in any order.
\<close>

datatype event = Monitor_tick | Advertise_request "string option" bool bool

fun step :: "env \<Rightarrow> world \<Rightarrow> event \<Rightarrow> world" where
  "step env w Monitor_tick = runRemovalMonitorOnce env w"
| "step env w (Advertise_request serverKey dryRun auto) =
     snd (advertise env serverKey dryRun auto w)"

definition run :: "env \<Rightarrow> event list \<Rightarrow> world \<Rightarrow> world" where
  "run env evs w = foldl (step env) w evs"

section \<open>The schedule runtime\<close>

text \<open>Decimal rendering of a status code inside a template literal.\<close>

fun show_nat :: "nat \<Rightarrow> string" where
  "show_nat n = (if n < 10 then [''0123456789'' ! n]
                 else show_nat (n div 10) @ [''0123456789'' ! (n mod 10)])"

declare show_nat.simps [simp del]

text \<open>
  The request to the advertise endpoint answers by position, like the other oracles:
  it throws, or yields a response (possibly none). The session it starts on the
  server runs with \<open>autoScheduleIfThrottled: false\<close> and so leaves \<open>schedules.json\<close>
  alone.
\<close>

type_synonym fetch_oracle = "nat \<Rightarrow> string option \<Rightarrow> js_error + fetch_response option"

subsection \<open>scheduler.js: \<open>createScheduleRunner\<close>\<close>

text \<open>
  The body of \<open>for (const schedule of scheduleList)\<close> in the function that
  \<open>createScheduleRunner({ dataDir, retryDelayMs })\<close> returns, called with
  \<open>{ now, fetchImpl }\<close>.
\<close>

definition runner_entry :: "int \<Rightarrow> int \<Rightarrow> fetch_oracle \<Rightarrow> world \<Rightarrow> schedule \<Rightarrow> world" where
  "runner_entry retryDelayMs now fetchImpl w sch =
     (if s_whenMs sch > now then w
      else
        (let attempt = (case s_attemptCount sch of None \<Rightarrow> 0 | Some n \<Rightarrow> n) + 1;
             retryAt = now + retryDelayMs;
             w1 = call_out (Call_fetch_advertise (s_serverKey sch)) w
         in case fetchImpl (ticks w) (s_serverKey sch) of
              Inr (Some resp) \<Rightarrow>
                if ok resp then removeSchedule (s_id sch) w1
                else snd (updateSchedule (s_id sch) retryAt attempt now
                            (case status resp of
                               None \<Rightarrow> ''no response''
                             | Some n \<Rightarrow> ''status '' @ show_nat n) w1)
            | Inr None \<Rightarrow>
                snd (updateSchedule (s_id sch) retryAt attempt now ''no response'' w1)
            | Inl err \<Rightarrow>
                snd (updateSchedule (s_id sch) retryAt attempt now (error_text err) w1)))"

definition createScheduleRunner :: "int \<Rightarrow> int \<Rightarrow> fetch_oracle \<Rightarrow> world \<Rightarrow> world" where
  "createScheduleRunner retryDelayMs now fetchImpl w =
     foldl (runner_entry retryDelayMs now fetchImpl) w (schedules w)"

subsection \<open>server: \<open>runScheduleTick\<close>\<close>

text \<open>
  The tick the server installs with \<open>setInterval\<close>. The response is not looked at, a
  throw is only logged, and \<open>finally\<close> removes the entry on every path.
\<close>

definition tick_entry :: "int \<Rightarrow> fetch_oracle \<Rightarrow> world \<Rightarrow> schedule \<Rightarrow> world" where
  "tick_entry now fetch w s =
     (if s_whenMs s \<le> now then
        (let w1 = call_out (Call_fetch_advertise (s_serverKey s)) w
         in case fetch (ticks w) (s_serverKey s) of
              Inr resp \<Rightarrow> removeSchedule (s_id s) w1
            | Inl err \<Rightarrow> removeSchedule (s_id s) w1)
      else w)"

definition runScheduleTick :: "env \<Rightarrow> fetch_oracle \<Rightarrow> world \<Rightarrow> world" where
  "runScheduleTick env fetch w =
     (let now = clock env (ticks w); w1 = tick w
      in foldl (tick_entry now fetch) w1 (schedules w1))"

subsection \<open>What the claims about the schedule runtime speak of\<close>

text \<open>
  The entry as a failed attempt leaves it: \<open>attemptCount\<close> one more than before,
  \<open>lastAttemptMs = now\<close>, \<open>lastError\<close> set and \<open>whenMs = now + retryDelayMs\<close>, all
  other fields as they were.
\<close>

definition retried :: "int \<Rightarrow> int \<Rightarrow> string \<Rightarrow> schedule \<Rightarrow> schedule" where
  "retried retryDelayMs now err s =
     s\<lparr>s_whenMs := now + retryDelayMs,
       s_attemptCount := Some ((case s_attemptCount s of None \<Rightarrow> 0 | Some n \<Rightarrow> n) + 1),
       s_lastAttemptMs := Some now,
       s_lastError := Some err\<rparr>"

text \<open>The entries of \<open>schedules.json\<close> with a given id.\<close>

definition with_id :: "string \<Rightarrow> schedule list \<Rightarrow> schedule list" where
  "with_id i ss = filter (\<lambda>s. s_id s = i) ss"

text \<open>
  Whether an answer of the advertise endpoint counts as success (\<open>response?.ok\<close>),
  and the text that \<open>lastError\<close> gets otherwise.
\<close>

definition succeeded :: "js_error + fetch_response option \<Rightarrow> bool" where
  "succeeded a = (case a of Inr (Some resp) \<Rightarrow> ok resp | _ \<Rightarrow> False)"

definition failure_text :: "js_error + fetch_response option \<Rightarrow> string" where
  "failure_text a =
     (case a of
        Inl err \<Rightarrow> error_text err
      | Inr None \<Rightarrow> ''no response''
      | Inr (Some resp) \<Rightarrow>
          (case status resp of None \<Rightarrow> ''no response'' | Some n \<Rightarrow> ''status '' @ show_nat n))"

text \<open>The state in which the runner reaches entry number \<open>j\<close> of its snapshot.\<close>

definition before_entry :: "int \<Rightarrow> int \<Rightarrow> fetch_oracle \<Rightarrow> world \<Rightarrow> nat \<Rightarrow> world" where
  "before_entry retryDelayMs now fetchImpl w j =
     foldl (runner_entry retryDelayMs now fetchImpl) w (take j (schedules w))"

section \<open>A worked example\<close>

text \<open>
  One tenant \<open>t1\<close> with defaults, targets that merge to a valid self post, a
  platform that accepts posts to \<open>good\<close>, accepts posts to \<open>noid\<close> without
  returning an id, and rejects all others; a clock that starts at 2,000,000,000 ms
  and advances by one per consultation.
\<close>

definition ex_defaults :: defaults where
  "ex_defaults = \<lparr>d_title = Some (JStr ''Hi''), d_invite = Some (JStr ''discord.gg/x''),
                   d_body = Some (JStr ''Yo'')\<rparr>"

definition ex_entry :: "string \<Rightarrow> entry" where
  "ex_entry sub = \<lparr>t_key = None, t_subreddit = sub, t_rules = None, t_post = None\<rparr>"

definition ex_poll :: entry where
  "ex_poll = \<lparr>t_key = Some ''k2'', t_subreddit = ''polls'',
     t_rules = Some \<lparr>cooldownDays = Some 1, requirePermanentInvite = Some True\<rparr>,
     t_post = Some \<lparr>ptype = Some (JStr ''poll''), title = Some (JStr ''T''), body = None,
                     url = None, flair_id = None, flair_text = None\<rparr>\<rparr>"

text \<open>A self post with the given body, and a target \<open>num\<close> whose body is the number 5.\<close>

definition ex_self_post :: "json option \<Rightarrow> post" where
  "ex_self_post b = \<lparr>ptype = Some (JStr ''self''), title = Some (JStr ''T''), body = b,
                      url = None, flair_id = None, flair_text = None\<rparr>"

definition ex_numeric :: entry where
  "ex_numeric = \<lparr>t_key = None, t_subreddit = ''num'', t_rules = None,
                  t_post = Some (ex_self_post (Some (JNum ''5'')))\<rparr>"

text \<open>Defaults whose invite is the array \<open>["x"]\<close>.\<close>

definition ex_array_defaults :: defaults where
  "ex_array_defaults = \<lparr>d_title = None, d_invite = Some (JArr [JStr ''x'']), d_body = None\<rparr>"

definition ex_env :: env where
  "ex_env =
     \<lparr>clock = (\<lambda>n. 2000000000 + int n),
      getToken = (\<lambda>n. Inr (Some ''tok'')),
      submitPost = (\<lambda>n tok req.
        if sr req = ''good'' then Inr \<lparr>j_id = Some ''abc'', j_name = None, j_url = Some ''u''\<rparr>
        else if sr req = ''noid'' then Inr \<lparr>j_id = None, j_name = None, j_url = None\<rparr>
        else Inl (JsError (Some ''submit failed: 503'') ''Error'')),
      resolveRecentSubmission = (\<lambda>n sub t. Inr None),
      fetchSubmissionInfo = (\<lambda>n i.
        if i = ''abc'' then Inr (Some \<lparr>removed_by_category = Some (JStr ''Deleted'')\<rparr>)
        else Inr (Some \<lparr>removed_by_category = Some (JStr ''moderator'')\<rparr>)),
      fresh_id = (\<lambda>n. ''id1''),
      squire_url = True\<rparr>"

definition ex_session :: "(string \<rightharpoonup> int) \<Rightarrow> session" where
  "ex_session cd = \<lparr>ticks = 0, calls = [], ss_cooldowns = cd, ss_posted = [],
                     results = [], postedCount = 0, thrown = None\<rparr>"

definition ex_tenant :: "int \<Rightarrow> entry list \<Rightarrow> posted_record list \<Rightarrow> tenant" where
  "ex_tenant lastAd es rs = \<lparr>lastAdAt = lastAd, cfg_defaults = Some ex_defaults, subs = es,
                             cooldowns = Map.empty, posted = rs\<rparr>"

definition ex_world :: "tenant \<Rightarrow> schedule list \<Rightarrow> world" where
  "ex_world t ss = \<lparr>ticks = 0, calls = [], server_keys = [''t1''],
                    tenants = [''t1'' \<mapsto> t], schedules = ss\<rparr>"

definition ex_record :: "string \<Rightarrow> int \<Rightarrow> string \<Rightarrow> posted_record" where
  "ex_record i created st = \<lparr>r_id = Some i, r_subreddit = ''good'', r_serverKey = ''t1'',
                              r_createdUtc = created, r_status = st, r_removal = None\<rparr>"

definition ex_schedule :: schedule where
  "ex_schedule = \<lparr>s_id = ''a'', s_serverKey = Some ''alpha'', s_whenMs = 0,
     s_reason = Some ''test'', s_createdMs = Some 0, s_attemptCount = None,
     s_lastAttemptMs = None, s_lastError = None\<rparr>"

definition ex_fetch :: "bool \<Rightarrow> fetch_oracle" where
  "ex_fetch good = (\<lambda>n k. Inr (Some \<lparr>ok = good, status = Some (if good then 200 else 503)\<rparr>))"

lemmas ex_defs = ex_defaults_def ex_entry_def ex_poll_def ex_env_def ex_session_def
  ex_self_post_def ex_numeric_def ex_array_defaults_def
  ex_tenant_def ex_world_def ex_record_def ex_schedule_def ex_fetch_def

section \<open>Merging defaults\<close>























section \<open>Basic facts about the session state\<close>


lemma tick_simps [simp]:
  "ticks (tick w) = Suc (ticks w)" "calls (tick w) = calls w"
  "ss_cooldowns (tick s) = ss_cooldowns s" "ss_posted (tick s) = ss_posted s"
  "results (tick s) = results s" "postedCount (tick s) = postedCount s"
  "thrown (tick s) = thrown s"
  "tenants (tick v) = tenants v" "schedules (tick v) = schedules v"
  "server_keys (tick v) = server_keys v"
  by (simp_all add: tick_def)

lemma call_out_simps [simp]:
  "ticks (call_out c w) = Suc (ticks w)" "calls (call_out c w) = calls w @ [c]"
  "ss_cooldowns (call_out c s) = ss_cooldowns s" "ss_posted (call_out c s) = ss_posted s"
  "results (call_out c s) = results s" "postedCount (call_out c s) = postedCount s"
  "thrown (call_out c s) = thrown s"
  "tenants (call_out c v) = tenants v" "schedules (call_out c v) = schedules v"
  "server_keys (call_out c v) = server_keys v"
  by (simp_all add: call_out_def)

lemma sleep_simps [simp]:
  "ticks (sleep n w) = ticks w" "calls (sleep n w) = calls w @ [Call_sleep n]"
  "ss_cooldowns (sleep n s) = ss_cooldowns s" "ss_posted (sleep n s) = ss_posted s"
  "results (sleep n s) = results s" "postedCount (sleep n s) = postedCount s"
  "thrown (sleep n s) = thrown s"
  by (simp_all add: sleep_def)

lemma push_simps [simp]:
  "ticks (push d s) = ticks s" "calls (push d s) = calls s"
  "ss_cooldowns (push d s) = ss_cooldowns s" "ss_posted (push d s) = ss_posted s"
  "results (push d s) = results s @ [d]" "postedCount (push d s) = postedCount s"
  "thrown (push d s) = thrown s"
  by (simp_all add: push_def)

lemma notifySquire_simps [simp]:
  "results (notifySquire env n s) = results s" "thrown (notifySquire env n s) = thrown s"
  "tenants (notifySquire env n v) = tenants v" "schedules (notifySquire env n v) = schedules v"
  by (simp_all add: notifySquire_def)

lemma catch_error_simps [simp]:
  "ticks (catch_error sub e s) = ticks s"
  "calls (catch_error sub e s) = calls s @ [Call_sleep 1000]"
  "ss_cooldowns (catch_error sub e s) = ss_cooldowns s"
  "ss_posted (catch_error sub e s) = ss_posted s"
  "results (catch_error sub e s) = results s @ [Error sub (error_text e)]"
  "postedCount (catch_error sub e s) = postedCount s"
  "thrown (catch_error sub e s) = thrown s"
  by (simp_all add: catch_error_def)

lemma record_posted_simps [simp]:
  "ticks (record_posted env k sub pid pl s) = (if truthy pid then Suc (ticks s) else ticks s)"
  "calls (record_posted env k sub pid pl s) = calls s"
  "ss_cooldowns (record_posted env k sub pid pl s) = ss_cooldowns s"
  "ss_posted (record_posted env k sub pid pl s) =
     (if truthy pid then ss_posted s @ [live_record k sub pid (clock env (ticks s))] else ss_posted s)"
  "results (record_posted env k sub pid pl s) = results s @ [Posted sub pid pl]"
  "postedCount (record_posted env k sub pid pl s) = postedCount s + 1"
  "thrown (record_posted env k sub pid pl s) = thrown s"
  by (simp_all add: record_posted_def Let_def)


subsection \<open>The ways through the loop body\<close>

lemma no_throw_merge:
  "target_throws env cfg e s = None \<Longrightarrow>
   withServerDefaults cfg (post_of e) = Inr (merged_post cfg e)"
  by (simp add: target_throws_def merged_post_def split: sum.splits)

lemma no_throw_validate:
  "target_throws env cfg e s = None \<Longrightarrow> \<not> wait_at env e s > 0 \<Longrightarrow>
   validate (rules_of e) (merged_post cfg e) = Inr (violations cfg e)"
  by (simp add: target_throws_def merged_post_def violations_def split: sum.splits)


lemma target_thrown:
  "target_throws env cfg e s = Some err \<Longrightarrow>
   advertise_target env k dry tok cfg e s = s\<lparr>thrown := Some err\<rparr>
   \<or> advertise_target env k dry tok cfg e s = (tick s)\<lparr>thrown := Some err\<rparr>"
  by (auto simp add: target_throws_def advertise_target_def wait_at_def Let_def
      split: sum.splits if_splits)

lemma target_skip:
  "target_throws env cfg e s = None \<Longrightarrow> wait_at env e s > 0 \<Longrightarrow>
   advertise_target env k dry tok cfg e s
   = push (Skip_cooldown (t_subreddit e) (inHours (wait_at env e s))) (tick s)"
  by (frule no_throw_merge) (simp add: advertise_target_def wait_at_def Let_def)

lemma target_invalid:
  "target_throws env cfg e s = None \<Longrightarrow> \<not> wait_at env e s > 0 \<Longrightarrow> violations cfg e \<noteq> [] \<Longrightarrow>
   advertise_target env k dry tok cfg e s
   = push (Invalid (t_subreddit e) (violations cfg e)) (tick s)"
  by (frule no_throw_merge, frule (1) no_throw_validate)
    (simp add: advertise_target_def wait_at_def Let_def)

lemma target_dry:
  "target_throws env cfg e s = None \<Longrightarrow> \<not> wait_at env e s > 0 \<Longrightarrow> violations cfg e = [] \<Longrightarrow>
   advertise_target env k True tok cfg e s
   = push (Dry_run_ok (t_subreddit e) (ptype (merged_post cfg e)) (title (merged_post cfg e))
             (url (merged_post cfg e)) (body (merged_post cfg e))) (tick s)"
  by (frule no_throw_merge, frule (1) no_throw_validate)
    (simp add: advertise_target_def wait_at_def Let_def)

lemma target_publish:
  "target_throws env cfg e s = None \<Longrightarrow> \<not> wait_at env e s > 0 \<Longrightarrow> violations cfg e = [] \<Longrightarrow>
   advertise_target env k False tok cfg e s = publish env k tok e (merged_post cfg e) (tick s)"
  by (frule no_throw_merge, frule (1) no_throw_validate)
    (simp add: advertise_target_def wait_at_def Let_def)



lemma publish_no_throw [simp]: "thrown (publish env k tok e p s) = thrown s"
  by (simp add: publish_def Let_def split: sum.splits option.splits)






subsection \<open>The loop\<close>

lemma run_targets_Nil [simp]: "run_targets env k dry tok cfg [] s = s"
  by (simp add: run_targets_def)

lemma run_targets_Cons:
  "run_targets env k dry tok cfg (e # es) s
   = run_targets env k dry tok cfg es (loop_step env k dry tok cfg s e)"
  by (simp add: run_targets_def)


lemma run_targets_stopped:
  "thrown s \<noteq> None \<Longrightarrow> run_targets env k dry tok cfg es s = s"
  by (induction es) (auto simp add: run_targets_Cons loop_step_def)

lemma run_targets_step:
  "thrown s = None \<Longrightarrow>
   run_targets env k dry tok cfg (e # es) s
   = run_targets env k dry tok cfg es (advertise_target env k dry tok cfg e s)"
  by (simp add: run_targets_Cons loop_step_def)






lemma before_target_all:
  "before_target env k dry tok cfg es s (length es) = run_targets env k dry tok cfg es s"
  by (simp add: before_target_def)







section \<open>The worked example, evaluated\<close>











section \<open>The cooldown gate\<close>










section \<open>Cooldown record and posted records\<close>



lemma publish_posted_when_lookup_answers:
  "submitPost env (ticks s) tok (submit_request e p) = Inr d \<Longrightarrow>
   \<forall>err. resolveRecentSubmission env (Suc (Suc (ticks s))) (t_subreddit e) (title p) \<noteq> Inl err \<Longrightarrow>
   \<exists>pid pl. last (results (publish env k tok e p s)) = Posted (t_subreddit e) pid pl"
  by (auto simp add: publish_def Let_def split: sum.splits option.splits if_splits)

lemma target_not_published:
  assumes "\<not> gates_passed env cfg e s"
  shows "ss_cooldowns (advertise_target env k dry tok cfg e s) = ss_cooldowns s
       \<and> ss_posted (advertise_target env k dry tok cfg e s) = ss_posted s
       \<and> calls (advertise_target env k dry tok cfg e s) = calls s
       \<and> postedCount (advertise_target env k dry tok cfg e s) = postedCount s
       \<and> (\<forall>d. results (advertise_target env k dry tok cfg e s) = results s @ [d]
               \<longrightarrow> status_of d \<noteq> ''posted'')"
proof (cases "target_throws env cfg e s")
  case (Some err)
  with target_thrown [OF Some, of k dry tok] show ?thesis by auto
next
  case None
  show ?thesis
  proof (cases "wait_at env e s > 0")
    case True
    with None show ?thesis by (simp add: target_skip)
  next
    case False
    with assms None have "violations cfg e \<noteq> []"
      by (simp add: gates_passed_def)
    with None False show ?thesis by (simp add: target_invalid)
  qed
qed

lemma target_published:
  assumes "gates_passed env cfg e s"
  shows "advertise_target env k False tok cfg e s = publish env k tok e (merged_post cfg e) (tick s)"
  using assms by (simp add: gates_passed_def target_publish)




section \<open>Dry runs, the success counter and the handler\<close>

lemma dry_target:
  "ss_cooldowns (advertise_target env k True tok cfg e s) = ss_cooldowns s
   \<and> ss_posted (advertise_target env k True tok cfg e s) = ss_posted s
   \<and> calls (advertise_target env k True tok cfg e s) = calls s
   \<and> postedCount (advertise_target env k True tok cfg e s) = postedCount s
   \<and> (target_throws env cfg e s = None
        \<longrightarrow> ticks (advertise_target env k True tok cfg e s) = Suc (ticks s))"
proof (cases "target_throws env cfg e s")
  case (Some err)
  with target_thrown [OF Some, of k True tok] show ?thesis by auto
next
  case None
  show ?thesis
  proof (cases "wait_at env e s > 0")
    case True
    with None show ?thesis by (simp add: target_skip)
  next
    case False
    with None show ?thesis
      by (cases "violations cfg e = []") (simp_all add: target_dry target_invalid)
  qed
qed






lemma session_start_simps [simp]:
  "ticks (session_start t w) = ticks w" "calls (session_start t w) = calls w"
  "ss_cooldowns (session_start t w) = cooldowns t" "ss_posted (session_start t w) = posted t"
  "results (session_start t w) = []" "postedCount (session_start t w) = 0"
  "thrown (session_start t w) = None"
  by (simp_all add: session_start_def)


subsection \<open>The handler, case by case\<close>

lemma advertise_bad_request:
  "\<not> truthy serverKey \<Longrightarrow> advertise env serverKey dry auto w = (Bad_request ''serverKey required'', w)"
  by (simp add: advertise_def)

lemma advertise_throttled:
  assumes "truthy serverKey"
    and "throttled (stored_lastAdAt w (str_of serverKey)) (clock env (ticks w))"
  shows "advertise env serverKey dry auto w =
     (if auto
      then (Throttled (stored_lastAdAt w (str_of serverKey) + SERVER_ROLLING_WINDOW_MS)
              (Some (fst (addSchedule env serverKey
                 (stored_lastAdAt w (str_of serverKey) + SERVER_ROLLING_WINDOW_MS) ''throttled'' (tick w)))),
            snd (addSchedule env serverKey
                 (stored_lastAdAt w (str_of serverKey) + SERVER_ROLLING_WINDOW_MS) ''throttled'' (tick w)))
      else (Throttled (stored_lastAdAt w (str_of serverKey) + SERVER_ROLLING_WINDOW_MS) None, tick w))"
  using assms by (simp add: advertise_def Let_def split: prod.splits)

lemma advertise_not_found:
  assumes "truthy serverKey"
    and "\<not> throttled (stored_lastAdAt w (str_of serverKey)) (clock env (ticks w))"
    and "tenants w (str_of serverKey) = None"
  shows "advertise env serverKey dry auto w = (Not_found ''server not found'', tick w)"
  using assms by (simp add: advertise_def Let_def)

lemma advertise_rejected:
  assumes "truthy serverKey"
    and "\<not> throttled (stored_lastAdAt w (str_of serverKey)) (clock env (ticks w))"
    and "tenants w (str_of serverKey) = Some t"
    and "acquire_token env dry (tick w) = (Inl err, w2)"
  shows "advertise env serverKey dry auto w = (Rejected err, w2)"
  using assms by (simp add: advertise_def Let_def)

lemma advertise_session:
  assumes "truthy serverKey"
    and "\<not> throttled (stored_lastAdAt w (str_of serverKey)) (clock env (ticks w))"
    and "tenants w (str_of serverKey) = Some t"
    and "acquire_token env dry (tick w) = (Inr tok, w2)"
  shows "advertise env serverKey dry auto w =
     finish_session env (str_of serverKey) dry t w2
       (run_targets env (str_of serverKey) dry tok (cfg_defaults t) (subs t) (session_start t w2))"
  using assms by (simp add: advertise_def Let_def)

lemma acquire_token_frame:
  "acquire_token env dry w = (a, w2) \<Longrightarrow>
   tenants w2 = tenants w \<and> schedules w2 = schedules w \<and> server_keys w2 = server_keys w"
  by (auto simp add: acquire_token_def split: if_splits)



lemma finish_session_simps:
  "fst (finish_session env k dry t w s)
   = (case thrown s of None \<Rightarrow> Ok_results (results s) | Some err \<Rightarrow> Rejected err)"
  "schedules (snd (finish_session env k dry t w s)) = schedules w"
  "server_keys (snd (finish_session env k dry t w s)) = server_keys w"
  "tenants (snd (finish_session env k dry t w s)) =
     (tenants w)(k \<mapsto> (if thrown s = None \<and> \<not> dry \<and> postedCount s > 0
                         then t\<lparr>cooldowns := ss_cooldowns s, posted := ss_posted s,
                                lastAdAt := clock env (ticks s)\<rparr>
                         else t\<lparr>cooldowns := ss_cooldowns s, posted := ss_posted s\<rparr>))"
  by (simp_all add: finish_session_def complete_session_def Let_def split: option.splits)

lemma addSchedule_simps:
  "tenants (snd (addSchedule env k u r w)) = tenants w"
  "calls (snd (addSchedule env k u r w)) = calls w"
  "schedules (snd (addSchedule env k u r w)) = schedules w @ [fst (addSchedule env k u r w)]"
  "s_reason (fst (addSchedule env k u r w)) = Some r"
  "s_whenMs (fst (addSchedule env k u r w)) = u"
  "s_serverKey (fst (addSchedule env k u r w)) = k"
  by (simp_all add: addSchedule_def Let_def)

section \<open>The throttle gate\<close>

lemma throttled_iff:
  "throttled L N \<longleftrightarrow> \<not> (L = 0 \<or> N - L \<ge> 86400000)"
  by (auto simp add: throttled_def SERVER_ROLLING_WINDOW_MS_def)

lemma window_value: "SERVER_ROLLING_WINDOW_MS = 86400000"
  by (simp add: SERVER_ROLLING_WINDOW_MS_def)

lemma advertise_eligible_frame:
  assumes "truthy serverKey"
    and "\<not> throttled (stored_lastAdAt w (str_of serverKey)) (clock env (ticks w))"
  shows "(\<forall>u sch. fst (advertise env serverKey dry auto w) \<noteq> Throttled u sch)
       \<and> schedules (snd (advertise env serverKey dry auto w)) = schedules w"
proof (cases "tenants w (str_of serverKey)")
  case None
  with assms show ?thesis by (simp add: advertise_not_found)
next
  case (Some t)
  obtain a w2 where acq: "acquire_token env dry (tick w) = (a, w2)"
    by (cases "acquire_token env dry (tick w)")
  then have fr: "schedules w2 = schedules w"
    using acquire_token_frame [OF acq] by simp
  show ?thesis
  proof (cases a)
    case (Inl err)
    with assms Some acq fr show ?thesis by (simp add: advertise_rejected)
  next
    case (Inr tok)
    with assms Some acq fr show ?thesis
      by (simp add: advertise_session finish_session_simps split: option.splits)
  qed
qed

text \<open>
  C2. For every advertise request that names a tenant, with \<open>L\<close> the tenant's
  stored \<open>lastAdAt\<close> and \<open>N\<close> the clock reading of the request: if \<open>L = 0\<close> or
  \<open>N - L \<ge> 86,400,000\<close> the request is not throttled and creates no schedule;
  otherwise the response is \<open>throttled\<close> with \<open>throttleUntil = L + 86,400,000\<close>, no
  tenant file is touched and no call is made (no target is processed), and exactly
  one schedule is appended, with reason \<open>throttled\<close> and
  \<open>whenMs = throttleUntil\<close>, if and only if \<open>autoScheduleIfThrottled\<close> was
  requested.
\<close>

theorem throttle_gate:
  assumes "truthy serverKey"
  shows "let L = stored_lastAdAt w (str_of serverKey);
             N = clock env (ticks w);
             resp = fst (advertise env serverKey dryRun auto w);
             w' = snd (advertise env serverKey dryRun auto w)
         in if L = 0 \<or> N - L \<ge> 86400000
            then (\<forall>u sch. resp \<noteq> Throttled u sch) \<and> schedules w' = schedules w
            else tenants w' = tenants w \<and> calls w' = calls w
                 \<and> (if auto
                    then \<exists>e. resp = Throttled (L + 86400000) (Some e)
                           \<and> schedules w' = schedules w @ [e]
                           \<and> s_reason e = Some ''throttled''
                           \<and> s_whenMs e = L + 86400000
                           \<and> s_serverKey e = serverKey
                    else resp = Throttled (L + 86400000) None
                           \<and> schedules w' = schedules w)"
proof (cases "throttled (stored_lastAdAt w (str_of serverKey)) (clock env (ticks w))")
  case False
  then have "stored_lastAdAt w (str_of serverKey) = 0
      \<or> clock env (ticks w) - stored_lastAdAt w (str_of serverKey) \<ge> 86400000"
    by (simp add: throttled_iff)
  with advertise_eligible_frame [OF assms False, of dryRun auto] show ?thesis
    unfolding Let_def by simp
next
  case True
  then have no: "\<not> (stored_lastAdAt w (str_of serverKey) = 0
      \<or> clock env (ticks w) - stored_lastAdAt w (str_of serverKey) \<ge> 86400000)"
    by (simp add: throttled_iff)
  show ?thesis
  proof (cases auto)
    case False
    with no show ?thesis
      unfolding Let_def advertise_throttled [OF assms True]
      by (simp add: window_value)
  next
    case auto: True
    with no show ?thesis
      unfolding Let_def advertise_throttled [OF assms True]
      by (simp add: window_value addSchedule_simps)
  qed
qed


theorem throttle_gate_witness:
  "truthy (Some ''t1'')
   \<and> tenants (snd (advertise ex_env (Some ''t1'') False True
                     (ex_world (ex_tenant 1999000000 [] []) [])))
     = tenants (ex_world (ex_tenant 1999000000 [] []) [])
   \<and> (\<exists>e. fst (advertise ex_env (Some ''t1'') False True
                   (ex_world (ex_tenant 1999000000 [] []) []))
            = Throttled 2085400000 (Some e)
          \<and> schedules (snd (advertise ex_env (Some ''t1'') False True
                              (ex_world (ex_tenant 1999000000 [] []) []))) = [e]
          \<and> s_whenMs e = 2085400000 \<and> s_reason e = Some ''throttled'')"
proof -
  let ?w = "ex_world (ex_tenant 1999000000 [] []) []"
  have named: "truthy (Some ''t1'')"
    by (simp add: truthy_def)
  have L: "stored_lastAdAt ?w (str_of (Some ''t1'')) = 1999000000"
    by (simp add: stored_lastAdAt_def str_of_def ex_defs)
  have N: "clock ex_env (ticks ?w) = 2000000000"
    by (simp add: ex_defs)
  have S: "schedules ?w = []"
    by (simp add: ex_defs)
  from throttle_gate [OF named, of ?w ex_env False True] named show ?thesis
    unfolding Let_def L N S by auto
qed

section \<open>A failing target does not stop the session\<close>








section \<open>Dry runs leave the tenant alone\<close>

lemma tenant_rewritten [simp]:
  "t\<lparr>cooldowns := cooldowns t, posted := posted t\<rparr> = t"
  by simp









section \<open>The removal monitor: one record\<close>

lemma ttl_seconds: "MONITOR_TTL_DAYS * 86400 = 604800"
  by (simp add: MONITOR_TTL_DAYS_def)

lemma monitor_record_not_live:
  "r_status r \<noteq> ''live'' \<Longrightarrow> monitor_record env key now r w = (r, False, w)"
  by (simp add: monitor_record_def)

lemma monitor_record_expired:
  "r_status r = ''live'' \<Longrightarrow> age now r > MONITOR_TTL_DAYS * 86400 \<Longrightarrow>
   monitor_record env key now r w = (r\<lparr>r_status := ''expired''\<rparr>, True, w)"
  by (simp add: monitor_record_def)

lemma monitor_record_unknown:
  "r_status r = ''live'' \<Longrightarrow> \<not> age now r > MONITOR_TTL_DAYS * 86400 \<Longrightarrow> \<not> truthy (r_id r) \<Longrightarrow>
   monitor_record env key now r w = (r\<lparr>r_status := ''unknown''\<rparr>, True, w)"
  by (simp add: monitor_record_def)

lemma classifyRemoval_cases:
  "classifyRemoval (Some th) =
     (case lowered_category (Some th) of
        Inl err \<Rightarrow> Inl err
      | Inr cat \<Rightarrow> Inr (if cat = [] then (False, None) else (True, Some cat)))"
  by (simp add: classifyRemoval_def split: sum.splits)

lemma monitor_record_checked:
  assumes "checked_remotely now r"
  shows "monitor_record env key now r w =
     (let w1 = call_out (Call_fetchSubmissionInfo (str_of (r_id r))) w
      in case fetchSubmissionInfo env (ticks w) (str_of (r_id r)) of
           Inl err \<Rightarrow> (r, False, w1)
         | Inr None \<Rightarrow> (r, False, w1)
         | Inr (Some th) \<Rightarrow>
            (let cat = category_of th
             in if cat = [] \<or> cat = ''deleted'' then (r, False, w1)
                else (r\<lparr>r_status := ''removed'',
                        r_removal := Some \<lparr>category = cat, checkedUtc = now\<rparr>\<rparr>,
                      True,
                      notifySquire env (Post_removed key (r_subreddit r) (r_id r) cat) w1)))"
  using assms
  by (auto simp add: checked_remotely_def monitor_record_def Let_def classifyRemoval_cases
      category_of_def truthy_def str_of_def split: sum.splits option.splits)

lemma monitor_record_cases:
  "(r_status r \<noteq> ''live'') \<or> (r_status r = ''live'' \<and> age now r > MONITOR_TTL_DAYS * 86400)
   \<or> (r_status r = ''live'' \<and> \<not> age now r > MONITOR_TTL_DAYS * 86400 \<and> \<not> truthy (r_id r))
   \<or> checked_remotely now r"
  by (auto simp add: checked_remotely_def)

lemma monitor_record_unchanged:
  assumes "monitor_record env key now r w = (r', False, w')"
  shows "r' = r"
proof -
  consider "r_status r \<noteq> ''live''" | "r_status r = ''live'' \<and> age now r > MONITOR_TTL_DAYS * 86400"
    | "r_status r = ''live'' \<and> \<not> age now r > MONITOR_TTL_DAYS * 86400 \<and> \<not> truthy (r_id r)"
    | "checked_remotely now r"
    using monitor_record_cases by blast
  then show ?thesis
  proof cases
    case 1
    with assms show ?thesis by (simp add: monitor_record_not_live)
  next
    case 2
    with assms show ?thesis by (simp add: monitor_record_expired)
  next
    case 3
    with assms show ?thesis by (simp add: monitor_record_unknown)
  next
    case 4
    with assms show ?thesis
      by (auto simp add: monitor_record_checked Let_def split: sum.splits option.splits if_splits)
  qed
qed

lemma monitor_record_fetches:
  assumes "monitor_record env key now r w = (r', c, w')"
  shows "filter is_fetch (calls w') = filter is_fetch (calls w)
           @ (if checked_remotely now r then [Call_fetchSubmissionInfo (str_of (r_id r))] else [])"
proof -
  consider "r_status r \<noteq> ''live''" | "r_status r = ''live'' \<and> age now r > MONITOR_TTL_DAYS * 86400"
    | "r_status r = ''live'' \<and> \<not> age now r > MONITOR_TTL_DAYS * 86400 \<and> \<not> truthy (r_id r)"
    | "checked_remotely now r"
    using monitor_record_cases by blast
  then show ?thesis
  proof cases
    case 1
    with assms show ?thesis by (auto simp add: monitor_record_not_live checked_remotely_def)
  next
    case 2
    with assms show ?thesis by (auto simp add: monitor_record_expired checked_remotely_def)
  next
    case 3
    with assms show ?thesis by (auto simp add: monitor_record_unknown checked_remotely_def)
  next
    case 4
    with assms show ?thesis
      by (auto simp add: monitor_record_checked Let_def notifySquire_def
          split: sum.splits option.splits if_splits)
  qed
qed

lemma monitor_record_world:
  fixes w :: world
  assumes "monitor_record env key now r w = (r', c, w')"
  shows "tenants w' = tenants w \<and> schedules w' = schedules w \<and> server_keys w' = server_keys w"
  using assms
  by (auto simp add: monitor_record_def Let_def notifySquire_def
      split: sum.splits option.splits if_splits prod.splits)

section \<open>The removal monitor: one tenant, one tick\<close>

lemma monitor_records_length:
  "monitor_records env key now rs ch w = (rs', ch', w') \<Longrightarrow> length rs' = length rs"
proof (induction rs arbitrary: ch w rs' ch' w')
  case Nil
  then show ?case by simp
next
  case (Cons r rs)
  then show ?case
    by (auto split: prod.splits)
qed

lemma monitor_records_nth:
  fixes w :: "'a io_scheme"
  shows "monitor_records env key now rs ch w = (rs', ch', w') \<Longrightarrow> i < length rs \<Longrightarrow>
   \<exists>wi :: 'a io_scheme. rs' ! i = fst (monitor_record env key now (rs ! i) wi)"
proof (induction rs arbitrary: ch w rs' ch' w' i)
  case Nil
  then show ?case by simp
next
  case (Cons r rs)
  obtain r1 c1 w1 where step: "monitor_record env key now r w = (r1, c1, w1)"
    by (cases "monitor_record env key now r w") auto
  obtain rs2 ch2 w2 where rest: "monitor_records env key now rs (ch \<or> c1) w1 = (rs2, ch2, w2)"
    by (cases "monitor_records env key now rs (ch \<or> c1) w1") auto
  from Cons.prems(1) step rest have rs': "rs' = r1 # rs2" by simp
  show ?case
  proof (cases i)
    case 0
    with rs' step show ?thesis by (intro exI [of _ w]) simp
  next
    case (Suc j)
    with Cons.prems(2) have "j < length rs" by simp
    from Cons.IH [OF rest this] Suc rs' show ?thesis by simp
  qed
qed

lemma monitor_records_flag:
  "monitor_records env key now rs ch w = (rs', False, w') \<Longrightarrow> rs' = rs \<and> \<not> ch"
proof (induction rs arbitrary: ch w rs' w')
  case Nil
  then show ?case by simp
next
  case (Cons r rs)
  obtain r1 c1 w1 where step: "monitor_record env key now r w = (r1, c1, w1)"
    by (cases "monitor_record env key now r w") auto
  obtain rs2 ch2 w2 where rest: "monitor_records env key now rs (ch \<or> c1) w1 = (rs2, ch2, w2)"
    by (cases "monitor_records env key now rs (ch \<or> c1) w1") auto
  from Cons.prems step rest have eq: "rs' = r1 # rs2" "ch2 = False" by simp_all
  with Cons.IH [of "ch \<or> c1" w1 rs2 w2] rest have "rs2 = rs" "\<not> ch" "\<not> c1" by simp_all
  with step monitor_record_unchanged [of env key now r w r1 w1] eq show ?case by simp
qed

lemma monitor_records_fetches:
  "monitor_records env key now rs ch w = (rs', ch', w') \<Longrightarrow>
   filter is_fetch (calls w') = filter is_fetch (calls w)
     @ map (\<lambda>r. Call_fetchSubmissionInfo (str_of (r_id r))) (filter (checked_remotely now) rs)"
proof (induction rs arbitrary: ch w rs' ch' w')
  case Nil
  then show ?case by simp
next
  case (Cons r rs)
  obtain r1 c1 w1 where step: "monitor_record env key now r w = (r1, c1, w1)"
    by (cases "monitor_record env key now r w") auto
  obtain rs2 ch2 w2 where rest: "monitor_records env key now rs (ch \<or> c1) w1 = (rs2, ch2, w2)"
    by (cases "monitor_records env key now rs (ch \<or> c1) w1") auto
  from Cons.prems step rest have "w' = w2" by simp
  with Cons.IH [OF rest] monitor_record_fetches [OF step] show ?case by simp
qed

lemma monitor_records_world:
  fixes w :: world
  shows "monitor_records env key now rs ch w = (rs', ch', w') \<Longrightarrow>
   tenants w' = tenants w \<and> schedules w' = schedules w \<and> server_keys w' = server_keys w"
proof (induction rs arbitrary: ch w rs' ch' w')
  case Nil
  then show ?case by simp
next
  case (Cons r rs)
  obtain r1 c1 w1 where step: "monitor_record env key now r w = (r1, c1, w1)"
    by (cases "monitor_record env key now r w") auto
  obtain rs2 ch2 w2 where rest: "monitor_records env key now rs (ch \<or> c1) w1 = (rs2, ch2, w2)"
    by (cases "monitor_records env key now rs (ch \<or> c1) w1") auto
  from Cons.prems step rest have "w' = w2" by simp
  with Cons.IH [OF rest] monitor_record_world [OF step] show ?case by simp
qed

lemma listPostedRecords_written [simp]:
  "listPostedRecords (writePostedRecords key rs w) k
   = (if k = key then rs else listPostedRecords w k)"
  by (simp add: listPostedRecords_def writePostedRecords_def split: option.splits)

lemma writePostedRecords_simps [simp]:
  "calls (writePostedRecords key rs w) = calls w"
  "ticks (writePostedRecords key rs w) = ticks w"
  "server_keys (writePostedRecords key rs w) = server_keys w"
  "schedules (writePostedRecords key rs w) = schedules w"
  by (simp_all add: writePostedRecords_def)

lemma listPostedRecords_cong:
  "tenants w' = tenants w \<Longrightarrow> listPostedRecords w' k = listPostedRecords w k"
  by (simp add: listPostedRecords_def)

lemma monitor_server_own:
  "listPostedRecords (monitor_server env w key) key
   = fst (monitor_records env key (clock env (ticks w) div 1000)
            (listPostedRecords w key) False (tick w))"
proof -
  obtain rs' ch w2 where run: "monitor_records env key (clock env (ticks w) div 1000)
      (listPostedRecords w key) False (tick w) = (rs', ch, w2)"
    by (cases "monitor_records env key (clock env (ticks w) div 1000)
      (listPostedRecords w key) False (tick w)") auto
  have same: "listPostedRecords w2 key = listPostedRecords w key"
    using monitor_records_world [OF run] by (simp add: listPostedRecords_def)
  show ?thesis
  proof (cases ch)
    case True
    with run show ?thesis by (simp add: monitor_server_def Let_def)
  next
    case False
    with run monitor_records_flag [of env key _ _ False "tick w" rs' w2]
    have "rs' = listPostedRecords w key" by simp
    with False run same show ?thesis by (simp add: monitor_server_def Let_def)
  qed
qed

lemma monitor_server_other:
  "k \<noteq> key \<Longrightarrow> listPostedRecords (monitor_server env w key) k = listPostedRecords w k"
proof -
  assume other: "k \<noteq> key"
  obtain rs' ch w2 where run: "monitor_records env key (clock env (ticks w) div 1000)
      (listPostedRecords w key) False (tick w) = (rs', ch, w2)"
    by (cases "monitor_records env key (clock env (ticks w) div 1000)
      (listPostedRecords w key) False (tick w)") auto
  have "listPostedRecords w2 k = listPostedRecords w k"
    using monitor_records_world [OF run] by (simp add: listPostedRecords_def)
  with run other show ?thesis by (simp add: monitor_server_def Let_def)
qed

lemma monitor_server_fetches:
  "filter is_fetch (calls (monitor_server env w key))
   = filter is_fetch (calls w)
     @ map (\<lambda>r. Call_fetchSubmissionInfo (str_of (r_id r)))
         (filter (checked_remotely (clock env (ticks w) div 1000)) (listPostedRecords w key))"
proof -
  obtain rs' ch w2 where run: "monitor_records env key (clock env (ticks w) div 1000)
      (listPostedRecords w key) False (tick w) = (rs', ch, w2)"
    by (cases "monitor_records env key (clock env (ticks w) div 1000)
      (listPostedRecords w key) False (tick w)") auto
  from monitor_records_fetches [OF run] run show ?thesis
    by (simp add: monitor_server_def Let_def)
qed

lemma monitor_server_keys [simp]:
  "server_keys (monitor_server env w key) = server_keys w"
proof -
  obtain rs' ch w2 where run: "monitor_records env key (clock env (ticks w) div 1000)
      (listPostedRecords w key) False (tick w) = (rs', ch, w2)"
    by (cases "monitor_records env key (clock env (ticks w) div 1000)
      (listPostedRecords w key) False (tick w)") auto
  from monitor_records_world [OF run] run show ?thesis
    by (simp add: monitor_server_def Let_def)
qed

lemma monitor_server_length:
  "length (listPostedRecords (monitor_server env w key) k) = length (listPostedRecords w k)"
proof (cases "k = key")
  case False
  then show ?thesis by (simp add: monitor_server_other)
next
  case True
  obtain rs' ch w2 where run: "monitor_records env key (clock env (ticks w) div 1000)
      (listPostedRecords w key) False (tick w) = (rs', ch, w2)"
    by (cases "monitor_records env key (clock env (ticks w) div 1000)
      (listPostedRecords w key) False (tick w)") auto
  with True monitor_records_length [OF run] show ?thesis
    by (simp add: monitor_server_own)
qed

lemma monitor_server_nth:
  assumes "i < length (listPostedRecords w key)"
  shows "\<exists>wi :: world. listPostedRecords (monitor_server env w key) key ! i
     = fst (monitor_record env key (clock env (ticks w) div 1000) (listPostedRecords w key ! i) wi)"
proof -
  obtain rs' ch w2 where run: "monitor_records env key (clock env (ticks w) div 1000)
      (listPostedRecords w key) False (tick w) = (rs', ch, w2)"
    by (cases "monitor_records env key (clock env (ticks w) div 1000)
      (listPostedRecords w key) False (tick w)") auto
  from monitor_records_nth [OF run assms] run show ?thesis
    by (simp add: monitor_server_own)
qed

lemma monitor_server_keeps:
  assumes "i < length (listPostedRecords w k)"
    and "r_status (listPostedRecords w k ! i) \<noteq> ''live''"
  shows "listPostedRecords (monitor_server env w key) k ! i = listPostedRecords w k ! i"
proof (cases "k = key")
  case False
  then show ?thesis by (simp add: monitor_server_other)
next
  case True
  with monitor_server_nth [of i w key env] assms show ?thesis
    by (auto simp add: monitor_record_not_live)
qed

lemma monitor_fold_length:
  "length (listPostedRecords (foldl (monitor_server env) w keys) k) = length (listPostedRecords w k)"
  by (induction keys arbitrary: w) (simp_all add: monitor_server_length)

lemma monitor_fold_keeps:
  "i < length (listPostedRecords w k) \<Longrightarrow> r_status (listPostedRecords w k ! i) \<noteq> ''live'' \<Longrightarrow>
   listPostedRecords (foldl (monitor_server env) w keys) k ! i = listPostedRecords w k ! i"
proof (induction keys arbitrary: w)
  case Nil
  then show ?case by simp
next
  case (Cons key keys)
  have "listPostedRecords (monitor_server env w key) k ! i = listPostedRecords w k ! i"
    using Cons.prems by (rule monitor_server_keeps)
  moreover have "i < length (listPostedRecords (monitor_server env w key) k)"
    using Cons.prems(1) by (simp add: monitor_server_length)
  ultimately show ?case
    using Cons.IH [of "monitor_server env w key"] Cons.prems(2) by simp
qed

lemma aged_record:
  "r_createdUtc r \<noteq> 0 \<Longrightarrow> now - r_createdUtc r > 7 * 86400 \<Longrightarrow> age now r > MONITOR_TTL_DAYS * 86400"
  by (simp add: age_def MONITOR_TTL_DAYS_def)

lemma monitor_server_expires:
  assumes "i < length (listPostedRecords w key)"
    and "r_status (listPostedRecords w key ! i) = ''live''"
    and "age (clock env (ticks w) div 1000) (listPostedRecords w key ! i) > MONITOR_TTL_DAYS * 86400"
  shows "listPostedRecords (monitor_server env w key) key ! i
         = (listPostedRecords w key ! i)\<lparr>r_status := ''expired''\<rparr>"
  using monitor_server_nth [OF assms(1), of env] assms(2,3)
  by (auto simp add: monitor_record_expired)

lemma before_server_Suc:
  assumes "j < length (server_keys w)"
  shows "before_server env w (Suc j) = monitor_server env (before_server env w j) (server_keys w ! j)"
  using assms by (simp add: before_server_def take_Suc_conv_app_nth)

lemma tick_after_server:
  assumes "j < length (server_keys w)"
  shows "runRemovalMonitorOnce env w
         = foldl (monitor_server env) (before_server env w (Suc j)) (drop (Suc j) (server_keys w))"
proof -
  have "server_keys w = take (Suc j) (server_keys w) @ drop (Suc j) (server_keys w)"
    by simp
  then have "foldl (monitor_server env) w (server_keys w)
      = foldl (monitor_server env) (foldl (monitor_server env) w (take (Suc j) (server_keys w)))
          (drop (Suc j) (server_keys w))"
    by (metis foldl_append)
  then show ?thesis
    by (simp add: runRemovalMonitorOnce_def before_server_def)
qed

lemma tick_expires:
  assumes j: "j < length (server_keys w)"
    and i: "i < length (listPostedRecords (before_server env w j) (server_keys w ! j))"
    and live: "r_status (listPostedRecords (before_server env w j) (server_keys w ! j) ! i) = ''live''"
    and old: "age (clock env (ticks (before_server env w j)) div 1000)
                (listPostedRecords (before_server env w j) (server_keys w ! j) ! i)
              > MONITOR_TTL_DAYS * 86400"
  shows "listPostedRecords (runRemovalMonitorOnce env w) (server_keys w ! j) ! i
         = (listPostedRecords (before_server env w j) (server_keys w ! j) ! i)\<lparr>r_status := ''expired''\<rparr>"
proof -
  let ?wj = "before_server env w j"
  let ?key = "server_keys w ! j"
  let ?w1 = "before_server env w (Suc j)"
  have w1: "?w1 = monitor_server env ?wj ?key"
    by (rule before_server_Suc [OF j])
  have exp: "listPostedRecords ?w1 ?key ! i = (listPostedRecords ?wj ?key ! i)\<lparr>r_status := ''expired''\<rparr>"
    unfolding w1 using i live old by (rule monitor_server_expires)
  have len: "i < length (listPostedRecords ?w1 ?key)"
    unfolding w1 using i by (simp add: monitor_server_length)
  have "r_status (listPostedRecords ?w1 ?key ! i) \<noteq> ''live''"
    by (simp add: exp)
  with len have "listPostedRecords (foldl (monitor_server env) ?w1 (drop (Suc j) (server_keys w))) ?key ! i
      = listPostedRecords ?w1 ?key ! i"
    by (rule monitor_fold_keeps)
  with exp show ?thesis
    by (simp add: tick_after_server [OF j])
qed

lemma ex_lowered:
  "map to_lower ''Deleted'' = ''deleted''" "map to_lower ''moderator'' = ''moderator''"
  by code_simp+

text \<open>
  C7, as stated (every live record whose age since creation exceeds the TTL is
  expired without a remote query), fails for a record whose creation time is the
  falsy \<open>0\<close>: the monitor computes its age as \<open>now - (rec.createdUtc || now) = 0\<close>,
  so at \<open>now = 2,000,000\<close> seconds the record, more than seven days after its
  creation time, is not expired; the platform is asked about it and it stays
  \<open>live\<close>.
\<close>

theorem expired_counterexample:
  "2000000 - r_createdUtc (ex_record ''abc'' 0 ''live'') > 7 * 86400
   \<and> monitor_record ex_env ''t1'' 2000000 (ex_record ''abc'' 0 ''live'')
        \<lparr>ticks = 0, calls = []\<rparr>
     = (ex_record ''abc'' 0 ''live'', False,
        \<lparr>ticks = 1, calls = [Call_fetchSubmissionInfo ''abc'']\<rparr>)"
  by (simp add: monitor_record_def age_def MONITOR_TTL_DAYS_def truthy_def str_of_def
      classifyRemoval_def lowered_category_def ex_lowered call_out_def Let_def
      ex_record_def ex_env_def del: list.map)

text \<open>
  C7, amended. A live record whose creation time is not zero and whose age exceeds
  the TTL of 7 days is set to \<open>expired\<close> by its iteration, which makes no call. In
  a tick, for the server number \<open>j\<close> of the list: the \<open>fetchSubmissionInfo\<close> calls
  made while its records are processed are exactly those for the records that are
  live, within the TTL (or without a creation time) and have an id, in order; and
  every live record of the tenant with a creation time older than the TTL is
  \<open>expired\<close> in the store when the tick ends, and is not among the records asked
  about.
\<close>

theorem expired_without_remote_check:
  fixes w :: world and io :: "'a io_scheme"
  shows
  "(r_status r = ''live'' \<and> r_createdUtc r \<noteq> 0 \<and> now - r_createdUtc r > 7 * 86400
      \<longrightarrow> monitor_record env key now r io = (r\<lparr>r_status := ''expired''\<rparr>, True, io))
   \<and> (\<forall>j < length (server_keys w).
        let wj = before_server env w j;
            k = server_keys w ! j;
            t = clock env (ticks wj) div 1000;
            rs = listPostedRecords wj k
        in filter is_fetch (calls (before_server env w (Suc j)))
             = filter is_fetch (calls wj)
               @ map (\<lambda>r. Call_fetchSubmissionInfo (str_of (r_id r))) (filter (checked_remotely t) rs)
           \<and> (\<forall>i < length rs.
                 r_status (rs ! i) = ''live'' \<and> r_createdUtc (rs ! i) \<noteq> 0
                 \<and> t - r_createdUtc (rs ! i) > 7 * 86400
                 \<longrightarrow> listPostedRecords (runRemovalMonitorOnce env w) k ! i
                       = (rs ! i)\<lparr>r_status := ''expired''\<rparr>
                     \<and> \<not> checked_remotely t (rs ! i)))"
proof (intro conjI impI allI)
  assume "r_status r = ''live'' \<and> r_createdUtc r \<noteq> 0 \<and> now - r_createdUtc r > 7 * 86400"
  then show "monitor_record env key now r io = (r\<lparr>r_status := ''expired''\<rparr>, True, io)"
    by (simp add: monitor_record_expired aged_record)
next
  fix j assume j: "j < length (server_keys w)"
  let ?wj = "before_server env w j"
  let ?k = "server_keys w ! j"
  let ?t = "clock env (ticks ?wj) div 1000"
  let ?rs = "listPostedRecords ?wj ?k"
  have fetches: "filter is_fetch (calls (before_server env w (Suc j)))
      = filter is_fetch (calls ?wj)
        @ map (\<lambda>r. Call_fetchSubmissionInfo (str_of (r_id r))) (filter (checked_remotely ?t) ?rs)"
    unfolding before_server_Suc [OF j] by (rule monitor_server_fetches)
  have each: "\<forall>i < length ?rs.
      r_status (?rs ! i) = ''live'' \<and> r_createdUtc (?rs ! i) \<noteq> 0
      \<and> ?t - r_createdUtc (?rs ! i) > 7 * 86400
      \<longrightarrow> listPostedRecords (runRemovalMonitorOnce env w) ?k ! i = (?rs ! i)\<lparr>r_status := ''expired''\<rparr>
          \<and> \<not> checked_remotely ?t (?rs ! i)"
  proof (intro allI impI)
    fix i assume i: "i < length ?rs"
    assume h: "r_status (?rs ! i) = ''live'' \<and> r_createdUtc (?rs ! i) \<noteq> 0
      \<and> ?t - r_createdUtc (?rs ! i) > 7 * 86400"
    then have old: "age ?t (?rs ! i) > MONITOR_TTL_DAYS * 86400"
      by (simp add: aged_record)
    from h have live: "r_status (?rs ! i) = ''live''" by simp
    have "listPostedRecords (runRemovalMonitorOnce env w) ?k ! i = (?rs ! i)\<lparr>r_status := ''expired''\<rparr>"
      using j i live old by (rule tick_expires)
    moreover have "\<not> checked_remotely ?t (?rs ! i)"
      using old by (simp add: checked_remotely_def)
    ultimately show "listPostedRecords (runRemovalMonitorOnce env w) ?k ! i
          = (?rs ! i)\<lparr>r_status := ''expired''\<rparr> \<and> \<not> checked_remotely ?t (?rs ! i)"
      by simp
  qed
  from fetches each
  show "let wj = before_server env w j;
            k = server_keys w ! j;
            t = clock env (ticks wj) div 1000;
            rs = listPostedRecords wj k
        in filter is_fetch (calls (before_server env w (Suc j)))
             = filter is_fetch (calls wj)
               @ map (\<lambda>r. Call_fetchSubmissionInfo (str_of (r_id r))) (filter (checked_remotely t) rs)
           \<and> (\<forall>i < length rs.
                 r_status (rs ! i) = ''live'' \<and> r_createdUtc (rs ! i) \<noteq> 0
                 \<and> t - r_createdUtc (rs ! i) > 7 * 86400
                 \<longrightarrow> listPostedRecords (runRemovalMonitorOnce env w) k ! i
                       = (rs ! i)\<lparr>r_status := ''expired''\<rparr>
                     \<and> \<not> checked_remotely t (rs ! i))"
    unfolding Let_def by simp
qed

theorem expired_without_remote_check_witness:
  "listPostedRecords (runRemovalMonitorOnce ex_env
       (ex_world (ex_tenant 0 [] [ex_record ''abc'' 1000 ''live'']) [])) ''t1'' ! 0
   = ex_record ''abc'' 1000 ''expired''
   \<and> filter is_fetch (calls (before_server ex_env
         (ex_world (ex_tenant 0 [] [ex_record ''abc'' 1000 ''live'']) []) (Suc 0)))
     = []"
proof -
  let ?r = "ex_record ''abc'' 1000 ''live''"
  let ?w = "ex_world (ex_tenant 0 [] [?r]) []"
  have keys: "server_keys ?w = [''t1'']"
    by (simp add: ex_world_def)
  have server: "0 < length (server_keys ?w)"
    by (simp add: keys)
  have start: "before_server ex_env ?w 0 = ?w"
    by (simp add: before_server_def)
  have rs: "listPostedRecords ?w ''t1'' = [?r]"
    by (simp add: listPostedRecords_def ex_world_def ex_tenant_def)
  have now: "clock ex_env (ticks ?w) div 1000 = 2000000"
    by (simp add: ex_world_def ex_env_def)
  have none: "calls ?w = []"
    by (simp add: ex_world_def)
  have old: "r_status ?r = ''live'' \<and> r_createdUtc ?r \<noteq> 0 \<and> 2000000 - r_createdUtc ?r > 7 * 86400"
    by (simp add: ex_record_def)
  note tick = expired_without_remote_check [where w = ?w and env = ex_env,
      THEN conjunct2, THEN spec, of 0, THEN mp, OF server]
  have fetches: "filter is_fetch (calls (before_server ex_env ?w (Suc 0)))
      = map (\<lambda>r. Call_fetchSubmissionInfo (str_of (r_id r))) (filter (checked_remotely 2000000) [?r])"
    using tick by (simp add: Let_def start keys rs now none)
  have "listPostedRecords (runRemovalMonitorOnce ex_env ?w) ''t1'' ! 0 = ?r\<lparr>r_status := ''expired''\<rparr>"
    and "\<not> checked_remotely 2000000 ?r"
    using tick old by (simp_all add: Let_def start keys rs now none)
  with fetches show ?thesis
    by (simp add: ex_record_def)
qed

lemma removed_only_after_report:
  fixes io :: "'a io_scheme"
  assumes "r_status r = ''live''"
    and "r_status (fst (monitor_record env key now r io)) = ''removed''"
  shows "\<exists>th. fetchSubmissionInfo env (ticks io) (str_of (r_id r)) = Inr (Some th)
            \<and> category_of th \<noteq> []
            \<and> category_of th \<noteq> ''deleted''
            \<and> r_removal (fst (monitor_record env key now r io))
                = Some \<lparr>category = category_of th,
                          checkedUtc = now\<rparr>"
proof -
  consider "r_status r = ''live'' \<and> age now r > MONITOR_TTL_DAYS * 86400"
    | "r_status r = ''live'' \<and> \<not> age now r > MONITOR_TTL_DAYS * 86400 \<and> \<not> truthy (r_id r)"
    | "checked_remotely now r"
    using monitor_record_cases [of r now] assms(1) by blast
  then show ?thesis
  proof cases
    case 1
    with assms(2) show ?thesis by (simp add: monitor_record_expired)
  next
    case 2
    with assms(2) show ?thesis by (simp add: monitor_record_unknown)
  next
    case 3
    with assms show ?thesis
      by (auto simp add: monitor_record_checked Let_def split: sum.splits option.splits if_splits)
  qed
qed

text \<open>
  C8. For a live record that the monitor asks the platform about (within the TTL,
  with an id) and for which the platform answers with a submission: when the
  lower-cased removal category is \<open>deleted\<close> (the author's own deletion), or is
  empty (no category is reported, or one that is not a string, on which the
  classification throws and the monitor only logs), the record is left exactly as it
  was, \<open>changed\<close> is not set, and the only call made is the query itself (no
  notification); for any other category the record becomes \<open>removed\<close> with
  \<open>removal = {category, checkedUtc = now}\<close> and the notification is sent.
  Conversely a live record becomes \<open>removed\<close> only after such an answer with a
  category other than \<open>deleted\<close>.
\<close>

theorem self_deletion_not_escalated:
  fixes io :: "'a io_scheme"
  assumes "r_status r = ''live''"
  shows "(\<not> age now r > 7 * 86400 \<and> truthy (r_id r)
          \<and> fetchSubmissionInfo env (ticks io) (str_of (r_id r)) = Inr (Some th) \<longrightarrow>
          (let cat = category_of th;
               io1 = call_out (Call_fetchSubmissionInfo (str_of (r_id r))) io
           in monitor_record env key now r io =
                (if cat = [] \<or> cat = ''deleted'' then (r, False, io1)
                 else (r\<lparr>r_status := ''removed'',
                         r_removal := Some \<lparr>category = cat, checkedUtc = now\<rparr>\<rparr>,
                       True,
                       notifySquire env (Post_removed key (r_subreddit r) (r_id r) cat) io1))))
       \<and> (r_status (fst (monitor_record env key now r io)) = ''removed'' \<longrightarrow>
            (\<exists>th. fetchSubmissionInfo env (ticks io) (str_of (r_id r)) = Inr (Some th)
               \<and> category_of th \<noteq> []
               \<and> category_of th \<noteq> ''deleted''
               \<and> r_removal (fst (monitor_record env key now r io))
                   = Some \<lparr>category = category_of th,
                             checkedUtc = now\<rparr>))"
proof (intro conjI impI)
  assume h: "\<not> age now r > 7 * 86400 \<and> truthy (r_id r)
          \<and> fetchSubmissionInfo env (ticks io) (str_of (r_id r)) = Inr (Some th)"
  with assms have "checked_remotely now r"
    by (simp add: checked_remotely_def MONITOR_TTL_DAYS_def)
  then show "let cat = category_of th;
               io1 = call_out (Call_fetchSubmissionInfo (str_of (r_id r))) io
           in monitor_record env key now r io =
                (if cat = [] \<or> cat = ''deleted'' then (r, False, io1)
                 else (r\<lparr>r_status := ''removed'',
                         r_removal := Some \<lparr>category = cat, checkedUtc = now\<rparr>\<rparr>,
                       True,
                       notifySquire env (Post_removed key (r_subreddit r) (r_id r) cat) io1))"
    using h by (simp add: monitor_record_checked Let_def)
next
  assume "r_status (fst (monitor_record env key now r io)) = ''removed''"
  with assms show "\<exists>th. fetchSubmissionInfo env (ticks io) (str_of (r_id r)) = Inr (Some th)
               \<and> category_of th \<noteq> []
               \<and> category_of th \<noteq> ''deleted''
               \<and> r_removal (fst (monitor_record env key now r io))
                   = Some \<lparr>category = category_of th,
                             checkedUtc = now\<rparr>"
    by (rule removed_only_after_report)
qed

theorem self_deletion_not_escalated_witness:
  "monitor_record ex_env ''t1'' 2000000 (ex_record ''abc'' 1999999 ''live'')
     \<lparr>ticks = 0, calls = []\<rparr>
   = (ex_record ''abc'' 1999999 ''live'', False,
      \<lparr>ticks = 1, calls = [Call_fetchSubmissionInfo ''abc'']\<rparr>)
   \<and> r_removal (fst (monitor_record ex_env ''t1'' 2000000 (ex_record ''zzz'' 1999999 ''live'')
                       \<lparr>ticks = 0, calls = []\<rparr>))
     = Some \<lparr>category = ''moderator'', checkedUtc = 2000000\<rparr>"
proof -
  let ?io = "\<lparr>ticks = 0, calls = []\<rparr>"
  let ?a = "ex_record ''abc'' 1999999 ''live''"
  let ?z = "ex_record ''zzz'' 1999999 ''live''"
  have live: "r_status ?a = ''live''" "r_status ?z = ''live''"
    by (simp_all add: ex_record_def)
  have asked_a: "\<not> age 2000000 ?a > 7 * 86400 \<and> truthy (r_id ?a)
      \<and> fetchSubmissionInfo ex_env (ticks ?io) (str_of (r_id ?a))
          = Inr (Some \<lparr>removed_by_category = Some (JStr ''Deleted'')\<rparr>)"
    by (simp add: age_def truthy_def str_of_def ex_record_def ex_env_def)
  have asked_z: "\<not> age 2000000 ?z > 7 * 86400 \<and> truthy (r_id ?z)
      \<and> fetchSubmissionInfo ex_env (ticks ?io) (str_of (r_id ?z))
          = Inr (Some \<lparr>removed_by_category = Some (JStr ''moderator'')\<rparr>)"
    by (simp add: age_def truthy_def str_of_def ex_record_def ex_env_def)
  have lower: "category_of \<lparr>removed_by_category = Some (JStr ''Deleted'')\<rparr> = ''deleted''"
    "category_of \<lparr>removed_by_category = Some (JStr ''moderator'')\<rparr> = ''moderator''"
    by (simp_all add: category_of_def lowered_category_def ex_lowered del: list.map)
  from self_deletion_not_escalated [OF live(1), THEN conjunct1, rule_format, OF asked_a, of "''t1''"]
  have kept: "monitor_record ex_env ''t1'' 2000000 ?a ?io
      = (?a, False, call_out (Call_fetchSubmissionInfo (str_of (r_id ?a))) ?io)"
    unfolding Let_def lower by simp
  from self_deletion_not_escalated [OF live(2), THEN conjunct1, rule_format, OF asked_z, of "''t1''"]
  have "r_status (fst (monitor_record ex_env ''t1'' 2000000 ?z ?io)) = ''removed''"
    unfolding Let_def lower by simp
  from self_deletion_not_escalated [OF live(2), THEN conjunct2, rule_format, OF this]
  have "r_removal (fst (monitor_record ex_env ''t1'' 2000000 ?z ?io))
      = Some \<lparr>category = ''moderator'', checkedUtc = 2000000\<rparr>"
    using asked_z lower(2) by auto
  with kept show ?thesis
    by (simp add: call_out_def str_of_def ex_record_def)
qed

section \<open>Posted records over time\<close>

lemma publish_appends_live:
  "\<exists>new. ss_posted (publish env k tok e p s) = ss_posted s @ new
         \<and> (\<forall>r \<in> set new. r_status r = ''live'')"
  by (simp add: publish_def Let_def live_record_def split: sum.splits option.splits)

lemma target_appends_live:
  "\<exists>new. ss_posted (advertise_target env k dry tok cfg e s) = ss_posted s @ new
         \<and> (\<forall>r \<in> set new. r_status r = ''live'')"
proof (cases "gates_passed env cfg e s")
  case False
  then show ?thesis using target_not_published [OF False, of k dry tok] by simp
next
  case True
  show ?thesis
  proof (cases dry)
    case True
    then show ?thesis using dry_target [of env k tok cfg e s] by simp
  next
    case False
    with True publish_appends_live [of env k tok e "merged_post cfg e" "tick s"] show ?thesis
      by (simp add: target_published)
  qed
qed

lemma run_targets_appends_live:
  "\<exists>new. ss_posted (run_targets env k dry tok cfg es s) = ss_posted s @ new
         \<and> (\<forall>r \<in> set new. r_status r = ''live'')"
proof (induction es arbitrary: s)
  case Nil
  then show ?case by simp
next
  case (Cons e es)
  show ?case
  proof (cases "thrown s")
    case (Some err)
    then show ?thesis by (simp add: run_targets_stopped)
  next
    case None
    obtain n1 where n1: "ss_posted (advertise_target env k dry tok cfg e s) = ss_posted s @ n1"
        "\<forall>r \<in> set n1. r_status r = ''live''"
      using target_appends_live by blast
    obtain n2 where n2: "ss_posted (run_targets env k dry tok cfg es (advertise_target env k dry tok cfg e s))
          = ss_posted (advertise_target env k dry tok cfg e s) @ n2"
        "\<forall>r \<in> set n2. r_status r = ''live''"
      using Cons.IH by blast
    from n1 n2 None have "ss_posted (run_targets env k dry tok cfg (e # es) s) = ss_posted s @ (n1 @ n2)
        \<and> (\<forall>r \<in> set (n1 @ n2). r_status r = ''live'')"
      by (auto simp add: run_targets_step)
    then show ?thesis by blast
  qed
qed

lemma advertise_appends_live:
  "\<exists>new. listPostedRecords (snd (advertise env serverKey dry auto w)) k
            = listPostedRecords w k @ new
         \<and> (\<forall>r \<in> set new. r_status r = ''live'')"
proof (cases "truthy serverKey")
  case False
  then show ?thesis by (simp add: advertise_bad_request)
next
  case True
  show ?thesis
  proof (cases "throttled (stored_lastAdAt w (str_of serverKey)) (clock env (ticks w))")
    case throttled: True
    show ?thesis
      by (simp add: advertise_throttled [OF True throttled] addSchedule_simps
          listPostedRecords_def)
  next
    case False
    show ?thesis
    proof (cases "tenants w (str_of serverKey)")
      case None
      with True False show ?thesis by (simp add: advertise_not_found listPostedRecords_def)
    next
      case (Some t)
      obtain a w2 where acq: "acquire_token env dry (tick w) = (a, w2)"
        by (cases "acquire_token env dry (tick w)")
      have fr: "tenants w2 = tenants w"
        using acquire_token_frame [OF acq] by simp
      show ?thesis
      proof (cases a)
        case (Inl err)
        with True False Some acq fr show ?thesis
          by (simp add: advertise_rejected listPostedRecords_def)
      next
        case (Inr tok)
        let ?s = "run_targets env (str_of serverKey) dry tok (cfg_defaults t) (subs t)
                    (session_start t w2)"
        have adv: "advertise env serverKey dry auto w
            = finish_session env (str_of serverKey) dry t w2 ?s"
          using advertise_session [OF True False Some] acq Inr by simp
        obtain new where new: "ss_posted ?s = posted t @ new" "\<forall>r \<in> set new. r_status r = ''live''"
          using run_targets_appends_live [of env "str_of serverKey" dry tok "cfg_defaults t"
              "subs t" "session_start t w2"] by auto
        show ?thesis
        proof (cases "k = str_of serverKey")
          case True
          with new Some fr have "listPostedRecords (snd (finish_session env (str_of serverKey) dry t w2 ?s)) k
              = listPostedRecords w k @ new"
            by (auto simp add: listPostedRecords_def finish_session_simps)
          with new(2) adv show ?thesis by auto
        next
          case False
          with fr have "listPostedRecords (snd (finish_session env (str_of serverKey) dry t w2 ?s)) k
              = listPostedRecords w k"
            by (simp add: listPostedRecords_def finish_session_simps)
          with adv show ?thesis by simp
        qed
      qed
    qed
  qed
qed

lemma step_keeps:
  assumes "i < length (listPostedRecords w k)"
    and "r_status (listPostedRecords w k ! i) \<noteq> ''live''"
  shows "i < length (listPostedRecords (step env w ev) k)
       \<and> listPostedRecords (step env w ev) k ! i = listPostedRecords w k ! i"
proof (cases ev)
  case Monitor_tick
  with assms show ?thesis
    by (simp add: runRemovalMonitorOnce_def monitor_fold_length monitor_fold_keeps)
next
  case (Advertise_request serverKey dry auto)
  obtain new where "listPostedRecords (snd (advertise env serverKey dry auto w)) k
            = listPostedRecords w k @ new"
    using advertise_appends_live by blast
  with assms(1) Advertise_request show ?thesis
    by (simp add: nth_append)
qed

lemma run_keeps:
  "i < length (listPostedRecords w k) \<Longrightarrow> r_status (listPostedRecords w k ! i) \<noteq> ''live'' \<Longrightarrow>
   i < length (listPostedRecords (run env evs w) k)
   \<and> listPostedRecords (run env evs w) k ! i = listPostedRecords w k ! i"
proof (induction evs arbitrary: w)
  case Nil
  then show ?case by (simp add: run_def)
next
  case (Cons ev evs)
  have one: "i < length (listPostedRecords (step env w ev) k)
       \<and> listPostedRecords (step env w ev) k ! i = listPostedRecords w k ! i"
    using Cons.prems by (rule step_keeps)
  with Cons.prems(2) have "r_status (listPostedRecords (step env w ev) k ! i) \<noteq> ''live''"
    by simp
  with one Cons.IH [of "step env w ev"] show ?case
    by (simp add: run_def)
qed

text \<open>
  C9. An advertise request only appends to a tenant's posted records, and every
  record it appends has status \<open>live\<close>; a monitor tick neither adds nor drops
  records, and the iteration over a record whose status is not \<open>live\<close> returns it
  as it is, sets no flag and makes no call. Hence, over any sequence of monitor ticks
  and advertise requests, a record whose status is not \<open>live\<close> stays in its place
  unchanged: it never becomes \<open>live\<close> again, nor anything else.
\<close>

theorem posted_status_monotone:
  fixes w :: world and io :: "'a io_scheme"
  shows
  "(\<exists>new. listPostedRecords (snd (advertise env serverKey dryRun auto w)) k
            = listPostedRecords w k @ new
          \<and> (\<forall>r \<in> set new. r_status r = ''live''))
   \<and> length (listPostedRecords (runRemovalMonitorOnce env w) k) = length (listPostedRecords w k)
   \<and> (r_status r \<noteq> ''live'' \<longrightarrow> monitor_record env key now r io = (r, False, io))
   \<and> (\<forall>i < length (listPostedRecords w k).
         r_status (listPostedRecords w k ! i) \<noteq> ''live'' \<longrightarrow>
         i < length (listPostedRecords (run env evs w) k)
         \<and> listPostedRecords (run env evs w) k ! i = listPostedRecords w k ! i
         \<and> r_status (listPostedRecords (run env evs w) k ! i) \<noteq> ''live'')"
proof (intro conjI allI impI)
  show "\<exists>new. listPostedRecords (snd (advertise env serverKey dryRun auto w)) k
            = listPostedRecords w k @ new
          \<and> (\<forall>r \<in> set new. r_status r = ''live'')"
    by (rule advertise_appends_live)
  show "length (listPostedRecords (runRemovalMonitorOnce env w) k) = length (listPostedRecords w k)"
    by (simp add: runRemovalMonitorOnce_def monitor_fold_length)
next
  assume "r_status r \<noteq> ''live''"
  then show "monitor_record env key now r io = (r, False, io)"
    by (rule monitor_record_not_live)
next
  fix i
  assume i: "i < length (listPostedRecords w k)"
    and dead: "r_status (listPostedRecords w k ! i) \<noteq> ''live''"
  from run_keeps [OF i dead, of env evs]
  show "i < length (listPostedRecords (run env evs w) k)"
    and "listPostedRecords (run env evs w) k ! i = listPostedRecords w k ! i"
    and "r_status (listPostedRecords (run env evs w) k ! i) \<noteq> ''live''"
    using dead by simp_all
qed


theorem posted_status_monotone_witness:
  "listPostedRecords
     (run ex_env [Monitor_tick, Advertise_request (Some ''t1'') False False, Monitor_tick]
        (ex_world (ex_tenant 0 [ex_entry ''good''] [ex_record ''abc'' 1000 ''expired'']) []))
     ''t1'' ! 0
   = ex_record ''abc'' 1000 ''expired''"
proof -
  let ?r = "ex_record ''abc'' 1000 ''expired''"
  let ?w = "ex_world (ex_tenant 0 [ex_entry ''good''] [?r]) []"
  have rs: "listPostedRecords ?w ''t1'' = [?r]"
    by (simp add: listPostedRecords_def ex_world_def ex_tenant_def)
  have i: "0 < length (listPostedRecords ?w ''t1'')"
    by (simp add: rs)
  have dead: "r_status (listPostedRecords ?w ''t1'' ! 0) \<noteq> ''live''"
    unfolding rs by (simp add: ex_record_def)
  from posted_status_monotone [where w = ?w and k = "''t1''" and env = ex_env
      and evs = "[Monitor_tick, Advertise_request (Some ''t1'') False False, Monitor_tick]",
      THEN conjunct2, THEN conjunct2, THEN conjunct2, rule_format, OF i dead]
  show ?thesis
    by (simp add: rs)
qed

section \<open>The schedule runtime: what each tick does to an entry\<close>

lemma update_first_other:
  assumes "j \<noteq> i" and "\<And>s. s_id (f s) = s_id s"
  shows "with_id j (case update_first i f ss of None \<Rightarrow> ss | Some (n, ss') \<Rightarrow> ss') = with_id j ss"
  using assms
  by (induction ss) (auto simp add: with_id_def split: option.splits)

lemma update_first_own:
  assumes "with_id i ss = [sch]" and "\<And>s. s_id (f s) = s_id s"
  shows "with_id i (case update_first i f ss of None \<Rightarrow> ss | Some (n, ss') \<Rightarrow> ss') = [f sch]"
  using assms
proof (induction ss)
  case Nil
  then show ?case by (simp add: with_id_def)
next
  case (Cons s ss)
  show ?case
  proof (cases "s_id s = i")
    case True
    with Cons.prems show ?thesis by (simp add: with_id_def)
  next
    case False
    with Cons.prems have "with_id i ss = [sch]" by (simp add: with_id_def)
    with Cons.IH Cons.prems(2) have "with_id i (case update_first i f ss of None \<Rightarrow> ss | Some (n, ss') \<Rightarrow> ss') = [f sch]"
      by simp
    with False Cons.prems(2) show ?thesis
      by (auto simp add: with_id_def split: option.splits)
  qed
qed

lemma updateSchedule_schedules:
  "schedules (snd (updateSchedule i a b c d w))
   = (case update_first i
             (\<lambda>s. s\<lparr>s_whenMs := a, s_attemptCount := Some b,
                     s_lastAttemptMs := Some c, s_lastError := Some d\<rparr>)
             (schedules w) of None \<Rightarrow> schedules w | Some (n, ss') \<Rightarrow> ss')"
  by (simp add: updateSchedule_def split: option.splits)

lemma updateSchedule_other:
  "j \<noteq> i \<Longrightarrow> with_id j (schedules (snd (updateSchedule i a b c d w))) = with_id j (schedules w)"
  unfolding updateSchedule_schedules by (rule update_first_other) simp_all

lemma updateSchedule_own:
  "with_id i (schedules w) = [sch] \<Longrightarrow>
   with_id i (schedules (snd (updateSchedule i a b c d w)))
   = [sch\<lparr>s_whenMs := a, s_attemptCount := Some b, s_lastAttemptMs := Some c, s_lastError := Some d\<rparr>]"
  unfolding updateSchedule_schedules
  using update_first_own [of i "schedules w" sch
      "\<lambda>s. s\<lparr>s_whenMs := a, s_attemptCount := Some b, s_lastAttemptMs := Some c, s_lastError := Some d\<rparr>"]
  by simp

lemma removeSchedule_other:
  "j \<noteq> i \<Longrightarrow> with_id j (schedules (removeSchedule i w)) = with_id j (schedules w)"
  by (simp add: removeSchedule_def with_id_def) metis

lemma removeSchedule_own: "with_id i (schedules (removeSchedule i w)) = []"
  by (simp add: removeSchedule_def with_id_def)

lemma runner_entry_other:
  assumes "s_id x \<noteq> j"
  shows "with_id j (schedules (runner_entry retryDelayMs now fetchImpl w x)) = with_id j (schedules w)"
  using assms
  by (auto simp add: runner_entry_def Let_def updateSchedule_other removeSchedule_other
      split: sum.splits option.splits)

lemma runner_entry_own:
  assumes "with_id (s_id sch) (schedules w) = [sch]"
  shows "with_id (s_id sch) (schedules (runner_entry retryDelayMs now fetchImpl w sch))
         = (if s_whenMs sch > now then [sch]
            else if succeeded (fetchImpl (ticks w) (s_serverKey sch)) then []
            else [retried retryDelayMs now (failure_text (fetchImpl (ticks w) (s_serverKey sch))) sch])"
  using assms
  by (auto simp add: runner_entry_def Let_def updateSchedule_own removeSchedule_own
      succeeded_def failure_text_def retried_def split: sum.splits option.splits)

lemma with_id_distinct:
  "distinct (map s_id ss) \<Longrightarrow> j < length ss \<Longrightarrow> with_id (s_id (ss ! j)) ss = [ss ! j]"
proof (induction ss arbitrary: j)
  case Nil
  then show ?case by simp
next
  case (Cons s ss)
  show ?case
  proof (cases j)
    case 0
    from Cons.prems(1) have "s_id s \<notin> s_id ` set ss" by simp
    then have "\<forall>x \<in> set ss. s_id x \<noteq> s_id s" by (metis imageI)
    then have "filter (\<lambda>x. s_id x = s_id s) ss = []" by (simp add: filter_empty_conv)
    with 0 show ?thesis by (simp add: with_id_def)
  next
    case (Suc n)
    with Cons.prems have n: "n < length ss" and d: "distinct (map s_id ss)" by simp_all
    from Cons.prems(1) have "s_id s \<notin> s_id ` set ss" by simp
    with n have "s_id s \<noteq> s_id (ss ! n)" by (metis imageI nth_mem)
    with Cons.IH [OF d n] Suc show ?thesis by (simp add: with_id_def)
  qed
qed

lemma runner_fold_other:
  "\<forall>x \<in> set xs. s_id x \<noteq> i \<Longrightarrow>
   with_id i (schedules (foldl (runner_entry retryDelayMs now fetchImpl) w xs)) = with_id i (schedules w)"
  by (induction xs arbitrary: w) (simp_all add: runner_entry_other)

lemma distinct_take_other:
  assumes "distinct (map s_id ss)" and "j < length ss"
  shows "\<forall>x \<in> set (take j ss). s_id x \<noteq> s_id (ss ! j)"
    and "\<forall>x \<in> set (drop (Suc j) ss). s_id x \<noteq> s_id (ss ! j)"
proof -
  have split: "ss = take j ss @ (ss ! j) # drop (Suc j) ss"
    using assms(2) by (simp add: id_take_nth_drop)
  then have "distinct (map s_id (take j ss @ (ss ! j) # drop (Suc j) ss))"
    using assms(1) by simp
  then have a: "s_id (ss ! j) \<notin> s_id ` set (take j ss)"
    and b: "s_id (ss ! j) \<notin> s_id ` set (drop (Suc j) ss)"
    by auto
  from a show "\<forall>x \<in> set (take j ss). s_id x \<noteq> s_id (ss ! j)"
    by (metis imageI)
  from b show "\<forall>x \<in> set (drop (Suc j) ss). s_id x \<noteq> s_id (ss ! j)"
    by (metis imageI)
qed

lemma runner_tick_entry:
  assumes d: "distinct (map s_id (schedules w))" and j: "j < length (schedules w)"
  shows "with_id (s_id (schedules w ! j)) (schedules (createScheduleRunner retryDelayMs now fetchImpl w))
     = (if s_whenMs (schedules w ! j) > now then [schedules w ! j]
        else if succeeded (fetchImpl (ticks (before_entry retryDelayMs now fetchImpl w j))
                             (s_serverKey (schedules w ! j)))
        then []
        else [retried retryDelayMs now
                (failure_text (fetchImpl (ticks (before_entry retryDelayMs now fetchImpl w j))
                                 (s_serverKey (schedules w ! j))))
                (schedules w ! j)])"
proof -
  let ?f = "runner_entry retryDelayMs now fetchImpl"
  let ?sch = "schedules w ! j"
  let ?wj = "before_entry retryDelayMs now fetchImpl w j"
  have split: "schedules w = take j (schedules w) @ ?sch # drop (Suc j) (schedules w)"
    using j by (simp add: id_take_nth_drop)
  have "foldl ?f w (schedules w) = foldl ?f (?f ?wj ?sch) (drop (Suc j) (schedules w))"
    unfolding before_entry_def by (subst split) simp
  then have whole: "createScheduleRunner retryDelayMs now fetchImpl w
      = foldl ?f (?f ?wj ?sch) (drop (Suc j) (schedules w))"
    by (simp add: createScheduleRunner_def)
  have before: "with_id (s_id ?sch) (schedules ?wj) = [?sch]"
    unfolding before_entry_def
    using runner_fold_other [OF distinct_take_other(1) [OF d j]] with_id_distinct [OF d j]
    by simp
  have after: "with_id (s_id ?sch) (schedules (foldl ?f (?f ?wj ?sch) (drop (Suc j) (schedules w))))
      = with_id (s_id ?sch) (schedules (?f ?wj ?sch))"
    using runner_fold_other [OF distinct_take_other(2) [OF d j]] by simp
  show ?thesis
    unfolding whole after by (rule runner_entry_own [OF before])
qed


text \<open>
  The scenario of scheduler.test.js on \<open>createScheduleRunner\<close>: a 503 postpones the
  entry with \<open>attemptCount = 1\<close>, a later 200 removes it.
\<close>

lemma runner_test_scenario:
  "schedules (createScheduleRunner 50 2000000000 (ex_fetch False)
               (ex_world (ex_tenant 0 [] []) [ex_schedule]))
   = [retried 50 2000000000 ''status 503'' ex_schedule]
   \<and> schedules (createScheduleRunner 50 2000000051 (ex_fetch True)
                   (createScheduleRunner 50 2000000000 (ex_fetch False)
                      (ex_world (ex_tenant 0 [] []) [ex_schedule])))
     = []"
  by (simp add: createScheduleRunner_def runner_entry_def updateSchedule_def removeSchedule_def
      retried_def ex_defs call_out_def show_nat.simps)

subsection \<open>The tick the server installs\<close>

lemma tick_entry_removes:
  "s_whenMs s \<le> now \<Longrightarrow>
   schedules (tick_entry now fetch w s) = filter (\<lambda>x. s_id x \<noteq> s_id s) (schedules w)"
  by (simp add: tick_entry_def removeSchedule_def split: sum.splits)

lemma tick_entry_subset:
  "set (schedules (tick_entry now fetch w s)) \<subseteq> set (schedules w)"
  by (auto simp add: tick_entry_def removeSchedule_def split: sum.splits)

lemma tick_fold_subset:
  "set (schedules (foldl (tick_entry now fetch) w ss)) \<subseteq> set (schedules w)"
proof (induction ss arbitrary: w)
  case Nil
  then show ?case by simp
next
  case (Cons s ss)
  have "set (schedules (foldl (tick_entry now fetch) (tick_entry now fetch w s) ss))
        \<subseteq> set (schedules (tick_entry now fetch w s))"
    by (rule Cons.IH)
  with tick_entry_subset [of now fetch w s] show ?case by auto
qed

lemma tick_fold_removes:
  "s \<in> set ss \<Longrightarrow> s_whenMs s \<le> now \<Longrightarrow>
   \<forall>x \<in> set (schedules (foldl (tick_entry now fetch) w ss)). s_id x \<noteq> s_id s"
proof (induction ss arbitrary: w)
  case Nil
  then show ?case by simp
next
  case (Cons a ss)
  show ?case
  proof (cases "a = s")
    case True
    have "set (schedules (foldl (tick_entry now fetch) (tick_entry now fetch w s) ss))
        \<subseteq> set (schedules (tick_entry now fetch w s))"
      by (rule tick_fold_subset)
    with True Cons.prems tick_entry_removes [of s now fetch w] show ?thesis by auto
  next
    case False
    with Cons show ?thesis by simp
  qed
qed

text \<open>
  The server's tick drops every due entry, whatever the advertise request answers:
  no entry with the id of a due entry is left.
\<close>

lemma server_tick_drops_due:
  "s \<in> set (schedules w) \<Longrightarrow> s_whenMs s \<le> clock env (ticks w) \<Longrightarrow>
   \<forall>x \<in> set (schedules (runScheduleTick env fetch w)). s_id x \<noteq> s_id s"
  using tick_fold_removes [of s "schedules w" "clock env (ticks w)" fetch "tick w"]
  by (simp add: runScheduleTick_def Let_def)

text \<open>
  C1. The claim holds of \<open>createScheduleRunner\<close> (scheduler.js), as the lemmas above
  show and its test exercises, but the server does not run it: the tick it installs
  is its own \<open>runScheduleTick\<close>, which removes a due entry in \<open>finally\<close> without
  looking at the response. The failing input: one due entry, and an advertise
  request answered with status 503. The server's tick leaves \<open>schedules.json\<close>
  empty: the entry is deleted although the call did not succeed, where the claim has
  it kept with \<open>attemptCount = 1\<close>, \<open>lastAttemptMs = now\<close>, \<open>lastError\<close> set and
  \<open>whenMs = now + retryDelayMs\<close>.
\<close>

theorem server_tick_deletes_failed_entry:
  "s_whenMs ex_schedule \<le> clock ex_env 0
   \<and> \<not> succeeded (ex_fetch False 1 (s_serverKey ex_schedule))
   \<and> schedules (runScheduleTick ex_env (ex_fetch False)
                   (ex_world (ex_tenant 0 [] []) [ex_schedule])) = []"
  by (simp add: runScheduleTick_def tick_entry_def removeSchedule_def succeeded_def ex_defs
      tick_def call_out_def)

end
